theory Spec2Isabelle
  imports Main "HOL-Library.Word"
begin

section \<open>reeltube-cli: the multipart upload engine\<close>

text \<open>
  The theory embeds \<^verbatim>\<open>client.go\<close> (the API client) and the upload command of
  \<^verbatim>\<open>main.go\<close>. Everything the Go code obtains from outside (the file system, the
  HTTP transport, the JSON decoder, the MIME tables of the standard library) is a field
  of an environment record, so that each function of the source is a pure function of
  its arguments and that environment. Go's \<^verbatim>\<open>int\<close> is modelled by \<^typ>\<open>int\<close>: all
  quantities are byte counts and part indices of one file, far below \<open>2 ^ 63\<close>.
\<close>

subsection \<open>Errors\<close>

text \<open>
  One constructor per \<^verbatim>\<open>fmt.Errorf\<close> of the source; the argument of type \<open>error\<close> is the
  error wrapped by \<^verbatim>\<open>%w\<close>. \<open>LibError\<close> is an error value returned by the operating
  system or a library.
\<close>

datatype error =
    LibError string
  | ApiError string
  | FailedGetFileInfo error
  | FailedGetPresignedURLs error
  | FailedGetPresignedURLsFromAPI error
  | FailedOpenFile error
  | FailedSeekPart int error
  | FailedReadPart int error
  | FailedCreatePut int error
  | FailedUploadPart int error
  | Non200Status int int
  | FailedComplete error

subsection \<open>client.go\<close>

record 'a APIResponse =
  Data :: "'a option"
  Error :: string
  Status :: int

text \<open>
  What one HTTP exchange of \<^verbatim>\<open>DoRequest\<close> meets, in the order the code asks for it:
  the error of \<^verbatim>\<open>json.Marshal\<close>, of \<^verbatim>\<open>http.NewRequest\<close>, of \<^verbatim>\<open>httpClient.Do\<close>,
  the status code, the result of decoding the body into the string
  \<^verbatim>\<open>apiResponse.Error\<close>, the error of \<^verbatim>\<open>io.ReadAll\<close>, the error of the debug-mode
  unmarshal into a map, and the result of unmarshalling the body into the target.
\<close>

record 'a exchange =
  marshalErr :: "string option"
  newRequestErr :: "string option"
  doErr :: "string option"
  statusCode :: int
  decodeError :: "string + string"
  readAllErr :: "string option"
  debugUnmarshalErr :: "string option"
  unmarshalTarget :: "string + 'a"

definition DoRequest :: "bool \<Rightarrow> bool \<Rightarrow> 'a exchange \<Rightarrow> error + 'a APIResponse" where
  "DoRequest debug hasParams x =
     (case (if hasParams then marshalErr x else None) of
        Some e \<Rightarrow> Inl (LibError e)
      | None \<Rightarrow>
     (case newRequestErr x of
        Some e \<Rightarrow> Inl (LibError e)
      | None \<Rightarrow>
     (case doErr x of
        Some e \<Rightarrow> Inl (LibError e)
      | None \<Rightarrow>
     (if statusCode x < 200 \<or> statusCode x \<ge> 300 then
        (case decodeError x of
           Inl e \<Rightarrow> Inl (ApiError e)
         | Inr msg \<Rightarrow> Inr \<lparr>Data = None, Error = msg, Status = statusCode x\<rparr>)
      else
     (case readAllErr x of
        Some e \<Rightarrow> Inl (LibError e)
      | None \<Rightarrow>
     (case (if debug then debugUnmarshalErr x else None) of
        Some e \<Rightarrow> Inl (LibError e)
      | None \<Rightarrow>
     (case unmarshalTarget x of
        Inl e \<Rightarrow> Inl (LibError e)
      | Inr d \<Rightarrow> Inr \<lparr>Data = Some d, Error = [], Status = statusCode x\<rparr>)))))))"

definition Post :: "bool \<Rightarrow> bool \<Rightarrow> 'a exchange \<Rightarrow> error + 'a APIResponse" where
  "Post debug hasParams x = DoRequest debug hasParams x"

record CreateMediaUploadResponse =
  UploadID :: string
  PartSize :: int
  NumParts :: int
  PresignedURLs :: "string list"
  MediaUploadID :: string

text \<open>The zero value of the struct, which \<^verbatim>\<open>var data CreateMediaUploadResponse\<close> holds
  until an unmarshal writes into it.\<close>

definition zeroResponse :: CreateMediaUploadResponse where
  "zeroResponse = \<lparr>UploadID = [], PartSize = 0, NumParts = 0, PresignedURLs = [],
     MediaUploadID = []\<rparr>"

text \<open>The target variable after the call: the unmarshalled value when \<^verbatim>\<open>DoRequest\<close>
  filled it, its zero value otherwise.\<close>

definition targetAfter :: "CreateMediaUploadResponse APIResponse \<Rightarrow> CreateMediaUploadResponse" where
  "targetAfter r = (case Data r of Some d \<Rightarrow> d | None \<Rightarrow> zeroResponse)"

definition CreateMediaUpload ::
  "bool \<Rightarrow> CreateMediaUploadResponse exchange \<Rightarrow> error + CreateMediaUploadResponse" where
  "CreateMediaUpload debug x =
     (case Post debug True x of
        Inl e \<Rightarrow> Inl e
      | Inr r \<Rightarrow> Inr (targetAfter r))"

record Part =
  PartNumber :: int
  ETag :: string

definition CompleteMultipartUpload ::
  "bool \<Rightarrow> CreateMediaUploadResponse exchange \<Rightarrow> error option" where
  "CompleteMultipartUpload debug x =
     (case Post debug True x of
        Inl e \<Rightarrow> Some e
      | Inr r \<Rightarrow> None)"

text \<open>The two wrappers of \<^verbatim>\<open>main.go\<close>.\<close>

definition createMediaUpload ::
  "bool \<Rightarrow> CreateMediaUploadResponse exchange \<Rightarrow> error + CreateMediaUploadResponse" where
  "createMediaUpload debug x =
     (case CreateMediaUpload debug x of
        Inl e \<Rightarrow> Inl (FailedGetPresignedURLsFromAPI e)
      | Inr r \<Rightarrow> Inr r)"

definition completeMultipartUpload ::
  "bool \<Rightarrow> CreateMediaUploadResponse exchange \<Rightarrow> error option" where
  "completeMultipartUpload debug x =
     (case CompleteMultipartUpload debug x of
        Some e \<Rightarrow> Some (FailedComplete e)
      | None \<Rightarrow> None)"

subsection \<open>main.go: the environment of an upload\<close>

type_synonym byte = "8 word"

text \<open>
  What the worker meets while it transfers one part, in the order the loop body asks
  for it: the error of \<^verbatim>\<open>os.Open\<close>, of \<^verbatim>\<open>file.Seek\<close>, of \<^verbatim>\<open>file.Read\<close> (an
  error other than \<^verbatim>\<open>io.EOF\<close>, which the code ignores), of \<^verbatim>\<open>http.NewRequest\<close>, of
  \<^verbatim>\<open>http.DefaultClient.Do\<close>, the status code of the response and its \<^verbatim>\<open>ETag\<close>
  header. \<open>elapsedNanos\<close> is the value of \<^verbatim>\<open>time.Since(startTime)\<close> when the part
  completes, a \<^verbatim>\<open>time.Duration\<close>, that is a number of nanoseconds.
\<close>

record partIO =
  openErr :: "string option"
  seekErr :: "string option"
  readErr :: "string option"
  putRequestErr :: "string option"
  putDoErr :: "string option"
  putStatus :: int
  putETag :: string
  elapsedNanos :: int

text \<open>
  \<open>maxAlloc\<close> is the number of bytes beyond which a \<^verbatim>\<open>make\<close> ends the process on
  the host: the limit of the Go runtime (\<^verbatim>\<open>makeslice: len out of range\<close>,
  \<^verbatim>\<open>makechan: size out of range\<close>), or the memory there is; a \<^verbatim>\<open>make\<close> of
  nothing always succeeds. \<open>complete\<close> is the
  exchange that finalization meets for a manifest; its \<open>marshalErr\<close> is the error of
  \<^verbatim>\<open>json.Marshal\<close> on the request, which fails when an \<^verbatim>\<open>ETag\<close> of the manifest,
  a \<^verbatim>\<open>json.RawMessage\<close>, is not valid JSON.
\<close>

record env =
  debug :: bool
  numCPU :: int
  maxAlloc :: int
  statResult :: "string + int"
  content :: "byte list"
  negotiate :: "CreateMediaUploadResponse exchange"
  partIO :: "int \<Rightarrow> partIO"
  complete :: "Part list \<Rightarrow> CreateMediaUploadResponse exchange"

text \<open>The network calls of a run, in the order they are made.\<close>

datatype call =
    CallCreate string int
  | CallPut int string "byte list"
  | CallComplete string string "Part list"

definition canMake :: "env \<Rightarrow> int \<Rightarrow> bool" where
  "canMake e bytes \<longleftrightarrow> 0 \<le> bytes \<and> (bytes = 0 \<or> bytes \<le> maxAlloc e)"

definition defaultConcurrency :: int where
  "defaultConcurrency = 5"

definition systemConcurrency :: "int \<Rightarrow> int" where
  "systemConcurrency numCores = (if numCores > 1 then numCores else defaultConcurrency)"

subsection \<open>main.go: the body of the worker loop\<close>

text \<open>The zero value of \<^verbatim>\<open>Part\<close>; its empty \<open>ETag\<close> stands for the \<^verbatim>\<open>nil\<close>
  \<^verbatim>\<open>json.RawMessage\<close>, which is marshalled as \<^verbatim>\<open>null\<close>.\<close>

definition zeroPart :: Part where
  "zeroPart = \<lparr>PartNumber = 0, ETag = []\<rparr>"

definition partOffsetOf :: "int \<Rightarrow> int \<Rightarrow> int" where
  "partOffsetOf partNum partSize = partNum * partSize"

definition readSizeOf :: "int \<Rightarrow> int \<Rightarrow> int \<Rightarrow> int" where
  "readSizeOf partSize fileSize partOffset =
     (if partOffset + partSize > fileSize then fileSize - partOffset else partSize)"

text \<open>
  \<^verbatim>\<open>file.Seek(off, io.SeekStart)\<close> followed by one \<^verbatim>\<open>file.Read(buf)\<close> with
  \<^verbatim>\<open>len(buf) = n\<close> on a regular file: the bytes from \<open>off\<close>, at most \<open>n\<close> of them
  and at most \<open>maxRW\<close>, the \<open>2 ^ 30\<close> bytes that one read of an \<^verbatim>\<open>os.File\<close>
  transfers. The code reads once and sends what that read returned
  (\<^verbatim>\<open>buffer[:n]\<close>).
\<close>

definition maxRW :: int where
  "maxRW = 1073741824"

definition fileRead :: "byte list \<Rightarrow> int \<Rightarrow> int \<Rightarrow> byte list" where
  "fileRead bs off n = take (nat (min n maxRW)) (drop (nat off) bs)"

datatype panic = IndexOutOfRange | MakeOutOfRange | SliceBoundsOutOfRange

datatype bodyResult = BodyPanic panic | BodyFail error | BodyOk Part

text \<open>
  One iteration of \<^verbatim>\<open>for partNum := range jobs\<close> up to the write of
  \<^verbatim>\<open>parts[partNum]\<close>. It returns the network calls made and how the iteration ends.
  The run-time panics of Go are branches: the index \<^verbatim>\<open>presignedURLs[partNum]\<close> out of
  range, \<^verbatim>\<open>make\<close> with a size that is negative or beyond \<open>maxAlloc\<close> (the part
  buffer, and the job channel in \<^verbatim>\<open>multipartUpload\<close>), and the slice
  \<^verbatim>\<open>buffer[:readSize]\<close> with a negative bound (\<open>readSize\<close> never exceeds \<open>partSize\<close>).
  \<^verbatim>\<open>parts\<close> has the length of \<^verbatim>\<open>presignedURLs\<close>, so its index is in range whenever the
  first one is.
\<close>

definition transferPart ::
  "env \<Rightarrow> CreateMediaUploadResponse \<Rightarrow> int \<Rightarrow> int \<Rightarrow> call list \<times> bodyResult" where
  "transferPart e r fileSize partNum =
     (let io = partIO e partNum; partSize = PartSize r in
      if \<not> (0 \<le> partNum \<and> partNum < int (length (PresignedURLs r))) then ([], BodyPanic IndexOutOfRange)
      else
        let url = PresignedURLs r ! nat partNum;
            partOffset = partOffsetOf partNum partSize in
        if \<not> canMake e partSize then ([], BodyPanic MakeOutOfRange)
        else case openErr io of
          Some x \<Rightarrow> ([], BodyFail (FailedOpenFile (LibError x)))
        | None \<Rightarrow>
        (case seekErr io of
          Some x \<Rightarrow> ([], BodyFail (FailedSeekPart partNum (LibError x)))
        | None \<Rightarrow>
        (let readSize = readSizeOf partSize fileSize partOffset in
         if readSize < 0 then ([], BodyPanic SliceBoundsOutOfRange)
         else case readErr io of
          Some x \<Rightarrow> ([], BodyFail (FailedReadPart partNum (LibError x)))
        | None \<Rightarrow>
        (let sent = fileRead (content e) partOffset readSize in
         case putRequestErr io of
          Some x \<Rightarrow> ([], BodyFail (FailedCreatePut partNum (LibError x)))
        | None \<Rightarrow>
        (case putDoErr io of
          Some x \<Rightarrow> ([CallPut partNum url sent], BodyFail (FailedUploadPart partNum (LibError x)))
        | None \<Rightarrow>
         if putStatus io \<noteq> 200
         then ([CallPut partNum url sent], BodyFail (Non200Status partNum (putStatus io)))
         else ([CallPut partNum url sent],
               BodyOk \<lparr>PartNumber = partNum + 1, ETag = putETag io\<rparr>))))))"

text \<open>
  \<^verbatim>\<open>int(elapsed.Seconds()/float64(partNum+1))\<close>: the seconds elapsed, divided by
  \<open>partNum + 1\<close> and truncated towards zero. The \<^verbatim>\<open>float64\<close> arithmetic is taken as
  exact; its rounding can differ from this only where a quotient lies within a
  rounding error of a whole number of seconds.
\<close>

definition truncDiv :: "int \<Rightarrow> int \<Rightarrow> int" where
  "truncDiv a b = sgn a * sgn b * (\<bar>a\<bar> div \<bar>b\<bar>)"

definition perPartSecondsOf :: "int \<Rightarrow> int \<Rightarrow> int" where
  "perPartSecondsOf elapsed partNum = truncDiv elapsed (1000000000 * (partNum + 1))"

text \<open>The label the progress bar gets after part \<open>partNum\<close>, in seconds:
  \<^verbatim>\<open>time.Duration((numParts-partNum-1)*int(...)) * time.Second\<close>.\<close>

definition remainingOf :: "int \<Rightarrow> int \<Rightarrow> int \<Rightarrow> int" where
  "remainingOf numParts partNum elapsed =
     (numParts - partNum - 1) * perPartSecondsOf elapsed partNum"

subsection \<open>main.go: the worker pool\<close>

text \<open>
  A worker is waiting at \<^verbatim>\<open>range jobs\<close> (\<open>Idle\<close>), inside the loop body with a part
  number (\<open>Busy\<close>), at a send \<^verbatim>\<open>errChan <- err\<close> (\<open>Sending\<close>), or has returned
  (\<open>Exited\<close>). The pool state holds the job channel, the workers, the shared
  \<^verbatim>\<open>parts\<close> slice, the contents of \<^verbatim>\<open>errChan\<close> (oldest first), the progress bar, the
  network calls made so far and whether a goroutine has panicked.

  The main goroutine fills \<^verbatim>\<open>jobs\<close>, whose capacity is \<open>numParts\<close>, without ever
  blocking and then closes it; a worker that finds the channel empty before it is
  closed only waits. The model therefore starts from the filled, closed channel:
  the orders in which the parts can be taken and finished are the same.
\<close>

datatype worker = Idle | Busy int | Sending error | Exited

record pool =
  jobs :: "int list"
  workers :: "worker list"
  parts :: "Part list"
  errChan :: "error list"
  barCurrent :: int
  barRemaining :: int
  netlog :: "call list"
  panicked :: "panic option"

text \<open>
  One step of worker \<open>w\<close>. A step that cannot be taken (no such worker, a worker that
  has returned, a send on the full error channel, anything after a panic) leaves the
  state as it is.
\<close>

definition step ::
  "env \<Rightarrow> CreateMediaUploadResponse \<Rightarrow> int \<Rightarrow> nat \<Rightarrow> pool \<Rightarrow> pool" where
  "step e r fileSize w st =
     (if panicked st \<noteq> None \<or> \<not> w < length (workers st) then st
      else case workers st ! w of
        Exited \<Rightarrow> st
      | Idle \<Rightarrow>
          (case jobs st of
             [] \<Rightarrow> st\<lparr>workers := (workers st)[w := Exited]\<rparr>
           | j # js \<Rightarrow> st\<lparr>jobs := js, workers := (workers st)[w := Busy j]\<rparr>)
      | Busy partNum \<Rightarrow>
          (case transferPart e r fileSize partNum of
             (cs, BodyPanic pn) \<Rightarrow> st\<lparr>netlog := netlog st @ cs, panicked := Some pn\<rparr>
           | (cs, BodyFail x) \<Rightarrow>
               st\<lparr>netlog := netlog st @ cs, workers := (workers st)[w := Sending x]\<rparr>
           | (cs, BodyOk p) \<Rightarrow>
               st\<lparr>netlog := netlog st @ cs,
                  parts := (parts st)[nat partNum := p],
                  barCurrent := barCurrent st + 1,
                  barRemaining :=
                    remainingOf (NumParts r) partNum (elapsedNanos (partIO e partNum)),
                  workers := (workers st)[w := Idle]\<rparr>)
      | Sending x \<Rightarrow>
          (if length (errChan st) < length (PresignedURLs r)
           then st\<lparr>errChan := errChan st @ [x], workers := (workers st)[w := Exited]\<rparr>
           else st))"

text \<open>A schedule names the worker that moves next.\<close>

fun run :: "env \<Rightarrow> CreateMediaUploadResponse \<Rightarrow> int \<Rightarrow> nat list \<Rightarrow> pool \<Rightarrow> pool" where
  "run e r fileSize [] st = st"
| "run e r fileSize (w # ws) st = run e r fileSize ws (step e r fileSize w st)"

definition initPool :: "CreateMediaUploadResponse \<Rightarrow> int \<Rightarrow> call list \<Rightarrow> pool" where
  "initPool r concurrency cs =
     \<lparr>jobs = map int [0 ..< nat (NumParts r)],
      workers = replicate (nat concurrency) Idle,
      parts = replicate (length (PresignedURLs r)) zeroPart,
      errChan = [],
      barCurrent = 0,
      barRemaining = 0,
      netlog = cs,
      panicked = None\<rparr>"

definition allExited :: "pool \<Rightarrow> bool" where
  "allExited st = list_all (\<lambda>w. w = Exited) (workers st)"

subsection \<open>main.go: multipartUpload\<close>

text \<open>\<^verbatim>\<open>jobs := make(chan int, numParts)\<close> succeeds; an \<^verbatim>\<open>int\<close> takes eight
  bytes.\<close>

definition poolStarts :: "env \<Rightarrow> CreateMediaUploadResponse \<Rightarrow> bool" where
  "poolStarts e r \<longleftrightarrow> canMake e (8 * NumParts r)"

text \<open>
  How a call of \<^verbatim>\<open>multipartUpload\<close> ends under a schedule: it returns (\<open>None\<close> is the
  \<^verbatim>\<open>nil\<close> error), the process dies of a panic, or \<^verbatim>\<open>wg.Wait()\<close> has not returned
  when the schedule is used up.
\<close>

datatype outcome = Returned "error option" | Crashed panic | Waiting

definition multipartUpload :: "env \<Rightarrow> string \<Rightarrow> nat list \<Rightarrow> outcome \<times> call list" where
  "multipartUpload e fileName sched =
     (case statResult e of
        Inl x \<Rightarrow> (Returned (Some (FailedGetFileInfo (LibError x))), [])
      | Inr fileSize \<Rightarrow>
     (let concurrency = systemConcurrency (numCPU e);
          cs = [CallCreate fileName fileSize] in
      case createMediaUpload (debug e) (negotiate e) of
        Inl x \<Rightarrow> (Returned (Some (FailedGetPresignedURLs x)), cs)
      | Inr r \<Rightarrow>
     (if \<not> poolStarts e r then (Crashed MakeOutOfRange, cs)
      else
        let st = run e r fileSize sched (initPool r concurrency cs) in
        (case panicked st of
          Some pn \<Rightarrow> (Crashed pn, netlog st)
        | None \<Rightarrow>
        (if \<not> allExited st then (Waiting, netlog st)
         else (case errChan st of
          x # xs \<Rightarrow> (Returned (Some x), netlog st)
        | [] \<Rightarrow>
          (let cs' = netlog st @ [CallComplete (MediaUploadID r) (UploadID r) (parts st)] in
           (case completeMultipartUpload (debug e) (complete e (parts st)) of
             Some x \<Rightarrow> (Returned (Some (FailedComplete x)), cs')
           | None \<Rightarrow> (Returned None, cs')))))))))"

subsection \<open>main.go: the upload command\<close>

text \<open>
  The command also reads: \<^verbatim>\<open>strings.ToLower\<close>, \<^verbatim>\<open>filepath.Abs\<close>, whether
  \<^verbatim>\<open>os.Stat\<close> of the absolute path reports that the file does not exist, the error
  of \<^verbatim>\<open>os.Open\<close>, the error of the 512-byte \<^verbatim>\<open>file.Read\<close> other than end of file,
  and the two MIME functions of the standard library, \<^verbatim>\<open>mime.TypeByExtension\<close> (its
  table depends on the host) and \<^verbatim>\<open>http.DetectContentType\<close>.
\<close>

record host = env +
  toLower :: "string \<Rightarrow> string"
  filepathAbs :: "string \<Rightarrow> string + string"
  pathMissing :: bool
  cmdOpenErr :: "string option"
  cmdReadErr :: "string option"
  typeByExtension :: "string \<Rightarrow> string"
  detectContentType :: "byte list \<Rightarrow> string"

definition allowedExtensions :: "string \<Rightarrow> bool" where
  "allowedExtensions ext \<longleftrightarrow>
     ext \<in> set [''.jpg'', ''.jpeg'', ''.png'', ''.gif'', ''.mp4'', ''.mov'', ''.avi'', ''.mkv'']"

definition allowedMIMEs :: "string \<Rightarrow> bool" where
  "allowedMIMEs m \<longleftrightarrow>
     m \<in> set [''image/jpeg'', ''image/png'', ''image/gif'', ''video/mp4'',
              ''video/quicktime'', ''video/x-msvideo'', ''video/x-matroska'']"

text \<open>\<^verbatim>\<open>filepath.Ext\<close>: scan from the end up to the last path separator; the suffix
  from the last dot, or the empty string.\<close>

fun extScan :: "string \<Rightarrow> string \<Rightarrow> string" where
  "extScan [] acc = []"
| "extScan (c # cs) acc =
     (if c = CHR ''/'' then []
      else if c = CHR ''.'' then c # acc
      else extScan cs (c # acc))"

definition filepathExt :: "string \<Rightarrow> string" where
  "filepathExt path = extScan (rev path) []"

text \<open>\<^verbatim>\<open>filepath.Base\<close>: drop trailing separators, keep what follows the last one.\<close>

definition filepathBase :: "string \<Rightarrow> string" where
  "filepathBase path =
     (if path = [] then ''.''
      else
        let p = rev (dropWhile (\<lambda>c. c = CHR ''/'') (rev path));
            b = rev (takeWhile (\<lambda>c. c \<noteq> CHR ''/'') (rev p))
        in if b = [] then ''/'' else b)"

text \<open>\<^verbatim>\<open>buffer := make([]byte, 512); file.Read(buffer)\<close> on a file at position 0: the
  buffer afterwards (zero beyond what was read), or end of file when nothing is left.\<close>

definition sniffBuffer :: "byte list \<Rightarrow> byte list" where
  "sniffBuffer bs = take 512 bs @ replicate (512 - length (take 512 bs)) 0"

definition read512 :: "host \<Rightarrow> string + byte list" where
  "read512 h =
     (if content h = [] then Inl ''EOF''
      else case cmdReadErr h of
        Some x \<Rightarrow> Inl x
      | None \<Rightarrow> Inr (sniffBuffer (content h)))"

definition resolveMime :: "host \<Rightarrow> string \<Rightarrow> byte list \<Rightarrow> string" where
  "resolveMime h ext buffer =
     (let mimeType = typeByExtension h ext in
      if mimeType = [] then detectContentType h buffer else mimeType)"

datatype cmdError =
    FilePathRequired
  | InvalidFilePath string
  | FileDoesNotExist string
  | FileTypeNotAllowed string
  | UnableToOpenFile string
  | UnableToReadFile string
  | MimeTypeNotAllowed string
  | ErrorUploading error

datatype cmdOutcome = Exit1 cmdError | Uploaded | CmdCrashed panic | CmdWaiting

text \<open>The local checks of the command, up to the call of \<^verbatim>\<open>multipartUpload\<close>: the
  failure that ends the process, or the absolute path and the name to upload under.\<close>

definition validate :: "host \<Rightarrow> string \<Rightarrow> string \<Rightarrow> cmdError + (string \<times> string)" where
  "validate h filePath uploadName =
     (if filePath = [] then Inl FilePathRequired
      else case filepathAbs h filePath of
        Inl x \<Rightarrow> Inl (InvalidFilePath x)
      | Inr absPath \<Rightarrow>
     (if pathMissing h then Inl (FileDoesNotExist absPath)
      else
        let ext = toLower h (filepathExt absPath) in
        if \<not> allowedExtensions ext then Inl (FileTypeNotAllowed ext)
        else case cmdOpenErr h of
          Some x \<Rightarrow> Inl (UnableToOpenFile x)
        | None \<Rightarrow>
        (case read512 h of
          Inl x \<Rightarrow> Inl (UnableToReadFile x)
        | Inr buffer \<Rightarrow>
        (let mimeType = resolveMime h ext buffer in
         if \<not> allowedMIMEs mimeType then Inl (MimeTypeNotAllowed mimeType)
         else Inr (absPath, if uploadName \<noteq> [] then uploadName else filepathBase absPath)))))"

definition uploadCmd :: "host \<Rightarrow> string \<Rightarrow> string \<Rightarrow> nat list \<Rightarrow> cmdOutcome \<times> call list" where
  "uploadCmd h filePath uploadName sched =
     (case validate h filePath uploadName of
        Inl x \<Rightarrow> (Exit1 x, [])
      | Inr (absPath, name) \<Rightarrow>
        (case multipartUpload (env.truncate h) name sched of
           (Returned (Some x), cs) \<Rightarrow> (Exit1 (ErrorUploading x), cs)
         | (Returned None, cs) \<Rightarrow> (Uploaded, cs)
         | (Crashed pn, cs) \<Rightarrow> (CmdCrashed pn, cs)
         | (Waiting, cs) \<Rightarrow> (CmdWaiting, cs)))"

subsection \<open>Observations on a run\<close>

text \<open>The errors a worker sends on the error channel.\<close>

fun isPartError :: "error \<Rightarrow> bool" where
  "isPartError (FailedOpenFile x) = True"
| "isPartError (FailedSeekPart n x) = True"
| "isPartError (FailedReadPart n x) = True"
| "isPartError (FailedCreatePut n x) = True"
| "isPartError (FailedUploadPart n x) = True"
| "isPartError (Non200Status n c) = True"
| "isPartError x = False"

fun isComplete :: "call \<Rightarrow> bool" where
  "isComplete (CallComplete m u ps) = True"
| "isComplete c = False"

definition finalizerCalls :: "call list \<Rightarrow> call list" where
  "finalizerCalls cs = filter isComplete cs"

fun isSending :: "worker \<Rightarrow> bool" where
  "isSending (Sending x) = True"
| "isSending w = False"

text \<open>A part transfer has failed: its error is in the channel or about to be sent.\<close>

definition failureSeen :: "pool \<Rightarrow> bool" where
  "failureSeen st \<longleftrightarrow> errChan st \<noteq> [] \<or> list_ex isSending (workers st)"

text \<open>The loop body gets as far as sending its \<^verbatim>\<open>PUT\<close>, and as far as a response
  to it.\<close>

definition putSent :: "env \<Rightarrow> CreateMediaUploadResponse \<Rightarrow> int \<Rightarrow> int \<Rightarrow> bool" where
  "putSent e r fileSize partNum \<longleftrightarrow>
     0 \<le> partNum \<and> partNum < int (length (PresignedURLs r)) \<and>
     canMake e (PartSize r) \<and>
     openErr (partIO e partNum) = None \<and> seekErr (partIO e partNum) = None \<and>
     0 \<le> readSizeOf (PartSize r) fileSize (partOffsetOf partNum (PartSize r)) \<and>
     readErr (partIO e partNum) = None \<and> putRequestErr (partIO e partNum) = None"

definition putAnswered :: "env \<Rightarrow> CreateMediaUploadResponse \<Rightarrow> int \<Rightarrow> int \<Rightarrow> bool" where
  "putAnswered e r fileSize partNum \<longleftrightarrow>
     putSent e r fileSize partNum \<and> putDoErr (partIO e partNum) = None"

text \<open>The session can be transferred without a panic: there are at least as many
  targets as parts, the part buffer can be made, and no part begins beyond the end of
  the file.\<close>

definition panicFree :: "env \<Rightarrow> CreateMediaUploadResponse \<Rightarrow> int \<Rightarrow> bool" where
  "panicFree e r fileSize \<longleftrightarrow>
     NumParts r \<le> int (length (PresignedURLs r)) \<and>
     canMake e (PartSize r) \<and>
     (NumParts r - 1) * PartSize r \<le> fileSize"

text \<open>The entry a successful transfer of part \<open>partNum\<close> writes.\<close>

definition okPart :: "env \<Rightarrow> int \<Rightarrow> Part" where
  "okPart e partNum = \<lparr>PartNumber = partNum + 1, ETag = putETag (partIO e partNum)\<rparr>"

text \<open>The pool of \<^verbatim>\<open>multipartUpload\<close> after a schedule, for a file size and a
  negotiated session.\<close>

definition poolAfter ::
  "env \<Rightarrow> string \<Rightarrow> int \<Rightarrow> CreateMediaUploadResponse \<Rightarrow> nat list \<Rightarrow> pool" where
  "poolAfter e fileName fileSize r sched =
     run e r fileSize sched
       (initPool r (systemConcurrency (numCPU e)) [CallCreate fileName fileSize])"

text \<open>The error \<open>x\<close> is the failure of the transfer of one of the parts of the session.\<close>

definition partFailure :: "env \<Rightarrow> CreateMediaUploadResponse \<Rightarrow> int \<Rightarrow> error \<Rightarrow> bool" where
  "partFailure e r fileSize x \<longleftrightarrow>
     list_ex (\<lambda>j. snd (transferPart e r fileSize j) = BodyFail x)
       (map int [0 ..< nat (NumParts r)])"

text \<open>
  What holds of the pool throughout a run. The part numbers in the channel and in the
  hands of the workers are part numbers of the session; every error held or sent is the
  failure of a part; \<^verbatim>\<open>parts\<close> keeps its length, and each of its entries is still zero
  or the entry of its own part; a part of the session is waiting, being transferred or
  recorded, unless a transfer has failed or the process has panicked; and a worker that
  has returned has found the job channel empty, unless a transfer has failed.
\<close>

definition inRange :: "CreateMediaUploadResponse \<Rightarrow> int \<Rightarrow> bool" where
  "inRange r j \<longleftrightarrow> 0 \<le> j \<and> j < NumParts r"

fun workerInv :: "env \<Rightarrow> CreateMediaUploadResponse \<Rightarrow> int \<Rightarrow> worker \<Rightarrow> bool" where
  "workerInv e r fileSize (Busy j) = inRange r j"
| "workerInv e r fileSize (Sending x) = partFailure e r fileSize x"
| "workerInv e r fileSize w = True"

definition poolInv :: "env \<Rightarrow> CreateMediaUploadResponse \<Rightarrow> int \<Rightarrow> pool \<Rightarrow> bool" where
  "poolInv e r fileSize st \<longleftrightarrow>
     length (parts st) = length (PresignedURLs r) \<and>
     list_all (inRange r) (jobs st) \<and>
     list_all (workerInv e r fileSize) (workers st) \<and>
     list_all (partFailure e r fileSize) (errChan st) \<and>
     (\<forall>k < length (parts st).
        parts st ! k = zeroPart \<or> (int k < NumParts r \<and> parts st ! k = okPart e (int k))) \<and>
     (\<forall>j. inRange r j \<longrightarrow>
        j \<in> set (jobs st) \<or> Busy j \<in> set (workers st) \<or>
        (nat j < length (parts st) \<and> parts st ! nat j = okPart e j) \<or>
        failureSeen st \<or> panicked st \<noteq> None) \<and>
     (Exited \<in> set (workers st) \<longrightarrow> jobs st = [] \<or> failureSeen st)"

text \<open>
  What bounds the error channel. The job channel holds the part numbers from some \<open>k\<close>
  on; of the \<open>k\<close> parts taken, those not in the hands of a worker have ended, so the
  errors sent or about to be sent and the parts in transfer number at most \<open>k\<close>; and
  as long as nothing has panicked, a part taken whose number is not an index of the
  target list is still in the hands of a worker.
\<close>

fun isBusy :: "worker \<Rightarrow> bool" where
  "isBusy (Busy j) = True"
| "isBusy w = False"

definition capInv :: "CreateMediaUploadResponse \<Rightarrow> pool \<Rightarrow> bool" where
  "capInv r st \<longleftrightarrow>
     (\<exists>k \<le> nat (NumParts r).
        jobs st = map int [k ..< nat (NumParts r)] \<and>
        length (errChan st) + length (filter isSending (workers st)) +
          length (filter isBusy (workers st)) \<le> k \<and>
        (panicked st = None \<longrightarrow>
           (\<forall>j. length (PresignedURLs r) \<le> j \<and> j < k \<longrightarrow> Busy (int j) \<in> set (workers st))))"

text \<open>The work left in a pool: it decreases with every step that changes the state.\<close>

fun weight :: "worker \<Rightarrow> nat" where
  "weight Idle = 1"
| "weight (Busy j) = 2"
| "weight (Sending x) = 1"
| "weight Exited = 0"

definition workLeft :: "pool \<Rightarrow> nat" where
  "workLeft st = 2 * length (jobs st) + sum_list (map weight (workers st))"

definition finished :: "pool \<Rightarrow> bool" where
  "finished st \<longleftrightarrow> panicked st \<noteq> None \<or> allExited st"



text \<open>The estimate as the specification words it, in whole seconds:
  \<open>partsRemaining \<times> (elapsed / partsCompletedSoFar)\<close>, rounded to the nearest second,
  for an elapsed time in nanoseconds.\<close>

definition specRemaining :: "int \<Rightarrow> int \<Rightarrow> int \<Rightarrow> int" where
  "specRemaining partsRemaining elapsed partsCompleted =
     (2 * partsRemaining * elapsed + partsCompleted * 1000000000) div
     (2 * partsCompleted * 1000000000)"

subsection \<open>Scenarios\<close>

definition okExchange :: "'a \<Rightarrow> 'a exchange" where
  "okExchange d =
     \<lparr>marshalErr = None, newRequestErr = None, doErr = None, statusCode = 200,
      decodeError = Inl ''not an error body'', readAllErr = None,
      debugUnmarshalErr = None, unmarshalTarget = Inr d\<rparr>"

text \<open>A reply with status 500 whose body is the JSON string \<^verbatim>\<open>"internal error"\<close>.\<close>

definition errorReply :: "CreateMediaUploadResponse exchange" where
  "errorReply =
     \<lparr>marshalErr = None, newRequestErr = None, doErr = None, statusCode = 500,
      decodeError = Inr ''internal error'', readAllErr = None,
      debugUnmarshalErr = None, unmarshalTarget = Inl ''cannot unmarshal string''\<rparr>"

definition okIO :: "int \<Rightarrow> string \<Rightarrow> partIO" where
  "okIO st tag =
     \<lparr>openErr = None, seekErr = None, readErr = None, putRequestErr = None,
      putDoErr = None, putStatus = st, putETag = tag, elapsedNanos = 3000000000\<rparr>"

text \<open>
  The scenario of the specification, scaled from megabytes to bytes: a file of 10
  bytes, parts of 4 bytes, three targets, tokens \<open>a\<close>, \<open>b\<close>, \<open>c\<close>. The tokens are
  the values of the \<^verbatim>\<open>ETag\<close> headers, which come in double quotes
  (\<^verbatim>\<open>"a"\<close>): JSON strings, so that the manifest can be marshalled. Every part
  completes 3 seconds after the start.
\<close>

definition quoted :: "string \<Rightarrow> string" where
  "quoted s = CHR 0x22 # s @ [CHR 0x22]"

definition demoResponse :: CreateMediaUploadResponse where
  "demoResponse =
     \<lparr>UploadID = ''up'', PartSize = 4, NumParts = 3,
      PresignedURLs = [''u0'', ''u1'', ''u2''], MediaUploadID = ''m''\<rparr>"

definition demoContent :: "byte list" where
  "demoContent = [1, 2, 3, 4, 5, 6, 7, 8, 9, 10]"

definition demoTag :: "int \<Rightarrow> string" where
  "demoTag i = quoted (if i = 0 then ''a'' else if i = 1 then ''b'' else ''c'')"

definition demoEnv :: "(int \<Rightarrow> int) \<Rightarrow> CreateMediaUploadResponse \<Rightarrow> env" where
  "demoEnv status r =
     \<lparr>debug = False, numCPU = 2, maxAlloc = 281474976710656, statResult = Inr 10,
      content = demoContent,
      negotiate = okExchange r,
      partIO = (\<lambda>i. okIO (status i) (demoTag i)),
      complete = (\<lambda>ps. okExchange zeroResponse)\<rparr>"

definition allOK :: "int \<Rightarrow> int" where
  "allOK i = 200"

definition constStatus :: "int \<Rightarrow> int \<Rightarrow> int" where
  "constStatus c i = c"

definition failAt :: "int \<Rightarrow> int \<Rightarrow> int" where
  "failAt k i = (if i = k then 500 else 200)"


text \<open>An environment in which nothing fails, for the session \<open>r\<close>: the control plane
  answers with \<open>r\<close>, the host can make the part buffer and the job channel, the file
  has the size of \<open>numParts\<close> full parts, every part opens, reads and uploads with
  status 200.\<close>

definition okEnv :: "CreateMediaUploadResponse \<Rightarrow> env" where
  "okEnv r =
     \<lparr>debug = False, numCPU = 2, maxAlloc = max (PartSize r) (8 * NumParts r),
      statResult = Inr (NumParts r * PartSize r),
      content = replicate (nat (NumParts r * PartSize r)) 0,
      negotiate = okExchange r,
      partIO = (\<lambda>i. okIO 200 (quoted ''t'')),
      complete = (\<lambda>ps. okExchange zeroResponse)\<rparr>"



definition lowerChar :: "char \<Rightarrow> char" where
  "lowerChar c =
     (let n = (of_char c :: nat) in if 65 \<le> n \<and> n \<le> 90 then char_of (n + 32) else c)"

text \<open>A host whose MIME table knows \<open>.jpg\<close> and \<open>.png\<close> only and whose sniffer finds
  MP4 in every file; \<open>bs\<close> is the file's content.\<close>

definition demoHost :: "byte list \<Rightarrow> host" where
  "demoHost bs =
     env.extend ((demoEnv allOK demoResponse)\<lparr>content := bs\<rparr>)
       \<lparr>toLower = map lowerChar,
        filepathAbs = (\<lambda>p. Inr p),
        pathMissing = False,
        cmdOpenErr = None,
        cmdReadErr = None,
        typeByExtension =
          (\<lambda>x. if x = ''.jpg'' then ''image/jpeg'' else if x = ''.png'' then ''image/png'' else []),
        detectContentType = (\<lambda>b. ''video/mp4'')\<rparr>"


section \<open>Properties\<close>

subsection \<open>The loop body\<close>

lemma transferPart_answered:
  "putAnswered e r fileSize partNum \<Longrightarrow>
   snd (transferPart e r fileSize partNum) =
     (if putStatus (partIO e partNum) = 200 then BodyOk (okPart e partNum)
      else BodyFail (Non200Status partNum (putStatus (partIO e partNum))))"
  by (simp add: putAnswered_def putSent_def transferPart_def okPart_def Let_def)

lemma transferPart_ok_answered:
  "snd (transferPart e r fileSize partNum) = BodyOk p \<Longrightarrow> putAnswered e r fileSize partNum"
  by (auto simp: putAnswered_def putSent_def transferPart_def Let_def
      split: if_splits option.splits)


subsection \<open>Control-plane replies with a non-success status\<close>

text \<open>
  C4. The claim: a control-plane reply with a non-success status makes
  \<^verbatim>\<open>createMediaUpload\<close> and \<^verbatim>\<open>completeMultipartUpload\<close> fail, so that the upload
  aborts instead of going on with a zero-valued response. The code does not do this.
  \<^verbatim>\<open>DoRequest\<close> returns the response with its \<^verbatim>\<open>Error\<close> field set and a \<^verbatim>\<open>nil\<close> error
  whenever the body of the reply decodes as a JSON string, and both callers drop that
  response. At the reply \<open>errorReply\<close> (status 500, body \<^verbatim>\<open>"internal error"\<close>) negotiation
  yields the zero-valued response with no error, finalization reports no error, and
  a whole upload whose two control-plane calls are answered that way returns \<^verbatim>\<open>nil\<close>
  after finalizing an empty manifest.
\<close>

theorem non_success_reply_is_not_reported:
  "createMediaUpload False errorReply = Inr zeroResponse \<and>
   completeMultipartUpload False errorReply = None \<and>
   multipartUpload
     ((demoEnv allOK demoResponse)\<lparr>negotiate := errorReply, complete := (\<lambda>ps. errorReply)\<rparr>)
     ''f.mp4'' [0, 1] =
   (Returned None, [CallCreate ''f.mp4'' 10, CallComplete [] [] []])"
  by code_simp

subsection \<open>Success of a part transfer\<close>

text \<open>
  C5, as the claim states it, fails: a part whose \<^verbatim>\<open>PUT\<close> is answered with status 204,
  a status of the 200 range, is a failed part (\<^verbatim>\<open>resp.StatusCode != http.StatusOK\<close>).
\<close>

theorem status_204_is_a_failure:
  "putAnswered (demoEnv (constStatus 204) demoResponse) demoResponse 10 0 \<and>
   200 \<le> putStatus (partIO (demoEnv (constStatus 204) demoResponse) 0) \<and>
   putStatus (partIO (demoEnv (constStatus 204) demoResponse) 0) < 300 \<and>
   snd (transferPart (demoEnv (constStatus 204) demoResponse) demoResponse 10 0) =
     BodyFail (Non200Status 0 204)"
  by code_simp

text \<open>
  C5, amended: a part transfer succeeds exactly when its \<^verbatim>\<open>PUT\<close> is answered and the
  status of the answer is 200; the entry recorded then has part number
  \<open>partNum + 1\<close> and, as completion token, the value of the \<^verbatim>\<open>ETag\<close> header of the
  answer.
\<close>

theorem part_success_iff_status_200:
  "snd (transferPart e r fileSize partNum) = BodyOk p \<longleftrightarrow>
     putAnswered e r fileSize partNum \<and> putStatus (partIO e partNum) = 200 \<and>
     p = \<lparr>PartNumber = partNum + 1, ETag = putETag (partIO e partNum)\<rparr>"
proof
  assume ok: "snd (transferPart e r fileSize partNum) = BodyOk p"
  then have a: "putAnswered e r fileSize partNum" by (rule transferPart_ok_answered)
  from ok transferPart_answered [OF a]
  show "putAnswered e r fileSize partNum \<and> putStatus (partIO e partNum) = 200 \<and>
     p = \<lparr>PartNumber = partNum + 1, ETag = putETag (partIO e partNum)\<rparr>"
    using a by (auto simp: okPart_def split: if_splits)
next
  assume "putAnswered e r fileSize partNum \<and> putStatus (partIO e partNum) = 200 \<and>
     p = \<lparr>PartNumber = partNum + 1, ETag = putETag (partIO e partNum)\<rparr>"
  then show "snd (transferPart e r fileSize partNum) = BodyOk p"
    by (simp add: transferPart_answered okPart_def)
qed

theorem part_success_iff_status_200_witness:
  "putAnswered (demoEnv allOK demoResponse) demoResponse 10 1 \<and>
   snd (transferPart (demoEnv allOK demoResponse) demoResponse 10 1) =
     BodyOk \<lparr>PartNumber = 2, ETag = quoted ''b''\<rparr>"
proof -
  have a: "putAnswered (demoEnv allOK demoResponse) demoResponse 10 1" by code_simp
  have b: "putStatus (partIO (demoEnv allOK demoResponse) 1) = 200" by code_simp
  have c: "\<lparr>PartNumber = 2, ETag = quoted ''b''\<rparr> =
     \<lparr>PartNumber = 1 + 1, ETag = putETag (partIO (demoEnv allOK demoResponse) 1)\<rparr>"
    by code_simp
  from a b c part_success_iff_status_200 [of "demoEnv allOK demoResponse" demoResponse 10 1
      "\<lparr>PartNumber = 2, ETag = quoted ''b''\<rparr>"]
  show ?thesis by blast
qed

subsection \<open>File classification\<close>

lemma validate_accepts_iff:
  "(\<exists>p. validate h filePath uploadName = Inr p) \<longleftrightarrow>
     filePath \<noteq> [] \<and>
     (\<exists>absPath. filepathAbs h filePath = Inr absPath \<and> \<not> pathMissing h \<and>
        allowedExtensions (toLower h (filepathExt absPath)) \<and>
        cmdOpenErr h = None \<and> content h \<noteq> [] \<and> cmdReadErr h = None \<and>
        allowedMIMEs (resolveMime h (toLower h (filepathExt absPath)) (sniffBuffer (content h))))"
  by (auto simp: validate_def read512_def Let_def split: sum.splits option.splits if_splits)

text \<open>
  C6, as the claim states it, fails: the command reads the first 512 bytes of every
  file whose extension is allowed, before it consults the extension table, and a failed
  read ends the command. The empty file \<^verbatim>\<open>/v/a.jpg\<close> has an allowed extension and the
  table resolves it to the allowed type \<^verbatim>\<open>image/jpeg\<close>, yet it is rejected.
\<close>

theorem empty_allowed_file_is_rejected:
  "allowedExtensions (toLower (demoHost []) (filepathExt ''/v/a.jpg'')) \<and>
   allowedMIMEs (typeByExtension (demoHost []) (toLower (demoHost []) (filepathExt ''/v/a.jpg''))) \<and>
   validate (demoHost []) ''/v/a.jpg'' [] = Inl (UnableToReadFile ''EOF'')"
  by code_simp

text \<open>
  C6, amended: the MIME type is the one the extension table gives for the lowercased
  extension, and the type sniffed from the 512-byte buffer only when the table gives
  none. A path is accepted exactly when it is not empty, resolves to an absolute path of
  an existing file, its lowercased extension is one of the eight allowed ones, the file
  opens, the read of its first 512 bytes succeeds (the file is not empty and the read
  reports no error), and the resolved MIME type is one of the seven allowed ones,
  whichever of the two ways supplied it.
\<close>

theorem classification_accepts_iff:
  "((\<exists>p. validate h filePath uploadName = Inr p) \<longleftrightarrow>
     filePath \<noteq> [] \<and>
     (\<exists>absPath. filepathAbs h filePath = Inr absPath \<and> \<not> pathMissing h \<and>
        allowedExtensions (toLower h (filepathExt absPath)) \<and>
        cmdOpenErr h = None \<and> content h \<noteq> [] \<and> cmdReadErr h = None \<and>
        allowedMIMEs (resolveMime h (toLower h (filepathExt absPath)) (sniffBuffer (content h))))) \<and>
   resolveMime h ext buffer =
     (if typeByExtension h ext = [] then detectContentType h buffer else typeByExtension h ext) \<and>
   (allowedExtensions ext \<longleftrightarrow>
      ext \<in> {''.jpg'', ''.jpeg'', ''.png'', ''.gif'', ''.mp4'', ''.mov'', ''.avi'', ''.mkv''}) \<and>
   (allowedMIMEs m \<longleftrightarrow>
      m \<in> {''image/jpeg'', ''image/png'', ''image/gif'', ''video/mp4'', ''video/quicktime'',
           ''video/x-msvideo'', ''video/x-matroska''})"
proof (intro conjI)
  show "(\<exists>p. validate h filePath uploadName = Inr p) \<longleftrightarrow>
     filePath \<noteq> [] \<and>
     (\<exists>absPath. filepathAbs h filePath = Inr absPath \<and> \<not> pathMissing h \<and>
        allowedExtensions (toLower h (filepathExt absPath)) \<and>
        cmdOpenErr h = None \<and> content h \<noteq> [] \<and> cmdReadErr h = None \<and>
        allowedMIMEs (resolveMime h (toLower h (filepathExt absPath)) (sniffBuffer (content h))))"
    by (rule validate_accepts_iff)
  show "resolveMime h ext buffer =
     (if typeByExtension h ext = [] then detectContentType h buffer else typeByExtension h ext)"
    by (simp add: resolveMime_def Let_def)
  show "allowedExtensions ext \<longleftrightarrow>
      ext \<in> {''.jpg'', ''.jpeg'', ''.png'', ''.gif'', ''.mp4'', ''.mov'', ''.avi'', ''.mkv''}"
    by (simp add: allowedExtensions_def)
  show "allowedMIMEs m \<longleftrightarrow>
      m \<in> {''image/jpeg'', ''image/png'', ''image/gif'', ''video/mp4'', ''video/quicktime'',
           ''video/x-msvideo'', ''video/x-matroska''}"
    by (simp add: allowedMIMEs_def)
qed

theorem classification_accepts_iff_witness:
  "validate (demoHost [1]) ''/v/CLIP.MP4'' [] = Inr (''/v/CLIP.MP4'', ''CLIP.MP4'') \<and>
   resolveMime (demoHost [1]) ''.mp4'' (sniffBuffer [1]) = ''video/mp4'' \<and>
   resolveMime (demoHost [1]) ''.jpg'' (sniffBuffer [1]) = ''image/jpeg'' \<and>
   (\<nexists>p. validate (demoHost [1]) ''/v/notes.txt'' [] = Inr p)"
proof -
  have a: "validate (demoHost [1]) ''/v/CLIP.MP4'' [] = Inr (''/v/CLIP.MP4'', ''CLIP.MP4'')"
    by code_simp
  have b: "resolveMime (demoHost [1]) ''.mp4'' (sniffBuffer [1]) = ''video/mp4''"
    using classification_accepts_iff [of "demoHost [1]" "''/v/CLIP.MP4''" "[]" "''.mp4''" "sniffBuffer [1]"]
    by (simp add: demoHost_def env.extend_def)
  have c: "resolveMime (demoHost [1]) ''.jpg'' (sniffBuffer [1]) = ''image/jpeg''"
    by code_simp
  have abs: "filepathAbs (demoHost [1]) ''/v/notes.txt'' = Inr ''/v/notes.txt''"
    by (simp add: demoHost_def env.extend_def)
  have ext: "\<not> allowedExtensions (toLower (demoHost [1]) (filepathExt ''/v/notes.txt''))"
    by code_simp
  have d: "\<nexists>p. validate (demoHost [1]) ''/v/notes.txt'' [] = Inr p"
    using classification_accepts_iff [of "demoHost [1]" "''/v/notes.txt''" "[]" "''.txt''" "[]"] abs ext
    by auto
  from a b c d show ?thesis by blast
qed

text \<open>
  C9. A zero-byte file never passes the local checks: the command ends with exit
  status 1 and has made no network call, under every schedule. When the checks before
  the read pass (the path resolves, the file exists, its extension is allowed and it
  opens), the failure is the read of the 512-byte buffer, which reports end of file.
  A file of 1 to 511 bytes is not rejected by that read: the read fills the front of
  the buffer, which stays 512 bytes long; the command does not end with the read
  error, whatever the error text; and when the other checks pass (the path, the
  extension, the opening and the MIME type resolved from that buffer), the file is
  accepted.
\<close>

theorem zero_byte_file_fails_validation:
  "(content h = [] \<longrightarrow>
      (\<exists>x. uploadCmd h filePath uploadName sched = (Exit1 x, [])) \<and>
      (filePath \<noteq> [] \<and> filepathAbs h filePath = Inr absPath \<and> \<not> pathMissing h \<and>
       allowedExtensions (toLower h (filepathExt absPath)) \<and> cmdOpenErr h = None \<longrightarrow>
         uploadCmd h filePath uploadName sched = (Exit1 (UnableToReadFile ''EOF''), []))) \<and>
   (1 \<le> length (content h) \<and> length (content h) \<le> 511 \<and> cmdReadErr h = None \<longrightarrow>
      read512 h = Inr (sniffBuffer (content h)) \<and> length (sniffBuffer (content h)) = 512 \<and>
      (\<forall>x. validate h filePath uploadName \<noteq> Inl (UnableToReadFile x)) \<and>
      (\<forall>x. fst (uploadCmd h filePath uploadName sched) \<noteq> Exit1 (UnableToReadFile x)) \<and>
      (filePath \<noteq> [] \<and> filepathAbs h filePath = Inr absPath \<and> \<not> pathMissing h \<and>
       allowedExtensions (toLower h (filepathExt absPath)) \<and> cmdOpenErr h = None \<and>
       allowedMIMEs (resolveMime h (toLower h (filepathExt absPath)) (sniffBuffer (content h))) \<longrightarrow>
         validate h filePath uploadName =
           Inr (absPath, if uploadName \<noteq> [] then uploadName else filepathBase absPath)))"
proof (intro conjI impI allI)
  assume e: "content h = []"
  then have "\<exists>x. validate h filePath uploadName = Inl x"
    by (auto simp: validate_def read512_def Let_def split: sum.splits option.splits)
  then show "\<exists>x. uploadCmd h filePath uploadName sched = (Exit1 x, [])"
    by (auto simp: uploadCmd_def)
next
  assume e: "content h = []"
    and ok: "filePath \<noteq> [] \<and> filepathAbs h filePath = Inr absPath \<and> \<not> pathMissing h \<and>
       allowedExtensions (toLower h (filepathExt absPath)) \<and> cmdOpenErr h = None"
  then have "validate h filePath uploadName = Inl (UnableToReadFile ''EOF'')"
    by (simp add: validate_def read512_def Let_def)
  then show "uploadCmd h filePath uploadName sched = (Exit1 (UnableToReadFile ''EOF''), [])"
    by (simp add: uploadCmd_def)
next
  assume "1 \<le> length (content h) \<and> length (content h) \<le> 511 \<and> cmdReadErr h = None"
  then show "read512 h = Inr (sniffBuffer (content h))"
    by (auto simp: read512_def)
next
  show "length (sniffBuffer (content h)) = 512"
    by (simp add: sniffBuffer_def)
next
  fix x
  assume "1 \<le> length (content h) \<and> length (content h) \<le> 511 \<and> cmdReadErr h = None"
  then have r: "read512 h = Inr (sniffBuffer (content h))"
    by (auto simp: read512_def)
  then show v: "validate h filePath uploadName \<noteq> Inl (UnableToReadFile x)"
    by (auto simp: validate_def Let_def split: sum.splits option.splits if_splits)
  show "fst (uploadCmd h filePath uploadName sched) \<noteq> Exit1 (UnableToReadFile x)"
  proof (cases "validate h filePath uploadName")
    case (Inl y)
    then show ?thesis using v by (simp add: uploadCmd_def)
  next
    case (Inr p)
    then show ?thesis
      by (cases p) (auto simp: uploadCmd_def split: prod.splits outcome.splits option.splits)
  qed
next
  assume "1 \<le> length (content h) \<and> length (content h) \<le> 511 \<and> cmdReadErr h = None"
    and "filePath \<noteq> [] \<and> filepathAbs h filePath = Inr absPath \<and> \<not> pathMissing h \<and>
       allowedExtensions (toLower h (filepathExt absPath)) \<and> cmdOpenErr h = None \<and>
       allowedMIMEs (resolveMime h (toLower h (filepathExt absPath)) (sniffBuffer (content h)))"
  then show "validate h filePath uploadName =
           Inr (absPath, if uploadName \<noteq> [] then uploadName else filepathBase absPath)"
    by (auto simp: validate_def read512_def Let_def)
qed

theorem zero_byte_file_fails_validation_witness:
  "content (demoHost []) = [] \<and>
   allowedExtensions (toLower (demoHost []) (filepathExt ''/v/a.jpg'')) \<and>
   uploadCmd (demoHost []) ''/v/a.jpg'' [] [0, 1] = (Exit1 (UnableToReadFile ''EOF''), []) \<and>
   length (content (demoHost [7])) = 1 \<and>
   read512 (demoHost [7]) = Inr (sniffBuffer [7]) \<and>
   validate (demoHost [7]) ''/v/a.jpg'' [] = Inr (''/v/a.jpg'', ''a.jpg'')"
proof -
  have a: "content (demoHost []) = []" by code_simp
  have b: "''/v/a.jpg'' \<noteq> [] \<and> filepathAbs (demoHost []) ''/v/a.jpg'' = Inr ''/v/a.jpg'' \<and>
       \<not> pathMissing (demoHost []) \<and>
       allowedExtensions (toLower (demoHost []) (filepathExt ''/v/a.jpg'')) \<and>
       cmdOpenErr (demoHost []) = None"
    by code_simp
  have c: "content (demoHost [7]) = [7]" by (simp add: demoHost_def env.extend_def)
  have d: "cmdReadErr (demoHost [7]) = None" by (simp add: demoHost_def env.extend_def)
  have l: "1 \<le> length (content (demoHost [7])) \<and> length (content (demoHost [7])) \<le> 511 \<and>
    cmdReadErr (demoHost [7]) = None"
    using c d by simp
  have b7: "''/v/a.jpg'' \<noteq> [] \<and> filepathAbs (demoHost [7]) ''/v/a.jpg'' = Inr ''/v/a.jpg'' \<and>
       \<not> pathMissing (demoHost [7]) \<and>
       allowedExtensions (toLower (demoHost [7]) (filepathExt ''/v/a.jpg'')) \<and>
       cmdOpenErr (demoHost [7]) = None \<and>
       allowedMIMEs (resolveMime (demoHost [7]) (toLower (demoHost [7]) (filepathExt ''/v/a.jpg''))
         (sniffBuffer (content (demoHost [7]))))"
    by code_simp
  have base: "filepathBase ''/v/a.jpg'' = ''a.jpg''" by code_simp
  from a b zero_byte_file_fails_validation [where h = "demoHost []" and filePath = "''/v/a.jpg''"
      and absPath = "''/v/a.jpg''" and uploadName = "[]" and sched = "[0, 1]"]
  have u: "uploadCmd (demoHost []) ''/v/a.jpg'' [] [0, 1] = (Exit1 (UnableToReadFile ''EOF''), [])"
    by blast
  note t = zero_byte_file_fails_validation [where h = "demoHost [7]" and filePath = "''/v/a.jpg''"
      and absPath = "''/v/a.jpg''" and uploadName = "[]"]
  from l t have r: "read512 (demoHost [7]) = Inr (sniffBuffer (content (demoHost [7])))"
    by blast
  from l b7 t have "validate (demoHost [7]) ''/v/a.jpg'' [] =
      Inr (''/v/a.jpg'', if [] \<noteq> ([]::string) then [] else filepathBase ''/v/a.jpg'')"
    by blast
  then have v: "validate (demoHost [7]) ''/v/a.jpg'' [] = Inr (''/v/a.jpg'', ''a.jpg'')"
    using base by simp
  from a b u c r v show ?thesis by simp
qed

subsection \<open>Byte ranges of the parts\<close>










subsection \<open>Invariants of the worker pool\<close>

lemma run_append: "run e r fs (ws1 @ ws2) st = run e r fs ws2 (run e r fs ws1 st)"
  by (induction ws1 arbitrary: st) simp_all

lemma run_invariant:
  assumes "\<And>w st. I st \<Longrightarrow> I (step e r fs w st)" and "I st"
  shows "I (run e r fs ws st)"
  using assms(2) by (induction ws arbitrary: st) (simp_all add: assms(1))

lemma transferPart_calls_put: "c \<in> set (fst (transferPart e r fs j)) \<Longrightarrow> \<not> isComplete c"
  by (auto simp: transferPart_def Let_def split: if_splits option.splits)

lemma finalizerCalls_append [simp]:
  "finalizerCalls (xs @ ys) = finalizerCalls xs @ finalizerCalls ys"
  by (simp add: finalizerCalls_def)

lemma finalizerCalls_transferPart [simp]: "finalizerCalls (fst (transferPart e r fs j)) = []"
  by (auto simp: finalizerCalls_def filter_empty_conv dest: transferPart_calls_put)

lemma step_finalizerCalls: "finalizerCalls (netlog (step e r fs w st)) = finalizerCalls (netlog st)"
  by (auto simp: step_def split: worker.splits list.splits bodyResult.splits prod.splits)
     (metis finalizerCalls_transferPart fst_conv)+

lemma run_finalizerCalls: "finalizerCalls (netlog (run e r fs ws st)) = finalizerCalls (netlog st)"
  by (induction ws arbitrary: st) (simp_all add: step_finalizerCalls)

lemma transferPart_fail_isPartError: "snd (transferPart e r fs j) = BodyFail x \<Longrightarrow> isPartError x"
  by (auto simp: transferPart_def Let_def split: if_splits option.splits)

lemma in_set_update_other:
  "x \<in> set xs \<Longrightarrow> w < length xs \<Longrightarrow> xs ! w \<noteq> x \<Longrightarrow> x \<in> set (xs[w := v])"
  by (metis in_set_conv_nth length_list_update nth_list_update_neq)

lemma in_set_update_cases: "x \<in> set (xs[w := v]) \<Longrightarrow> x = v \<or> x \<in> set xs"
  using set_update_subset_insert [of xs w v] by auto

lemma list_all_update: "list_all P xs \<Longrightarrow> P v \<Longrightarrow> list_all P (xs[w := v])"
  by (auto simp: list_all_iff dest: in_set_update_cases)

lemma failureSeen_iff:
  "failureSeen st \<longleftrightarrow> errChan st \<noteq> [] \<or> (\<exists>x. Sending x \<in> set (workers st))"
  unfolding failureSeen_def list_ex_iff
  by (metis isSending.elims(2) isSending.simps(1))

lemma step_failureSeen: "failureSeen st \<Longrightarrow> failureSeen (step e r fs w st)"
  unfolding failureSeen_iff
  by (auto simp: step_def split: worker.splits list.splits bodyResult.splits prod.splits
      intro: in_set_update_other)
     (metis in_set_update_other worker.distinct set_update_memI)+

lemma step_cases:
  obtains
    (stuck) "step e r fs w st = st"
  | (exit) "w < length (workers st)" "workers st ! w = Idle" "jobs st = []"
      "step e r fs w st = st\<lparr>workers := (workers st)[w := Exited]\<rparr>"
  | (take) j js where "w < length (workers st)" "workers st ! w = Idle" "jobs st = j # js"
      "step e r fs w st = st\<lparr>jobs := js, workers := (workers st)[w := Busy j]\<rparr>"
  | (panic) j cs pn where "w < length (workers st)" "workers st ! w = Busy j"
      "transferPart e r fs j = (cs, BodyPanic pn)"
      "step e r fs w st = st\<lparr>netlog := netlog st @ cs, panicked := Some pn\<rparr>"
  | (fail) j cs x where "w < length (workers st)" "workers st ! w = Busy j"
      "transferPart e r fs j = (cs, BodyFail x)"
      "step e r fs w st = st\<lparr>netlog := netlog st @ cs, workers := (workers st)[w := Sending x]\<rparr>"
  | (ok) j cs p where "w < length (workers st)" "workers st ! w = Busy j" "panicked st = None"
      "transferPart e r fs j = (cs, BodyOk p)"
      "step e r fs w st = st\<lparr>netlog := netlog st @ cs,
                  parts := (parts st)[nat j := p],
                  barCurrent := barCurrent st + 1,
                  barRemaining := remainingOf (NumParts r) j (elapsedNanos (partIO e j)),
                  workers := (workers st)[w := Idle]\<rparr>"
  | (send) x where "w < length (workers st)" "workers st ! w = Sending x"
      "step e r fs w st = st\<lparr>errChan := errChan st @ [x], workers := (workers st)[w := Exited]\<rparr>"
proof (cases "panicked st \<noteq> None \<or> \<not> w < length (workers st)")
  case True
  then have "step e r fs w st = st" by (simp add: step_def)
  then show ?thesis by (rule stuck)
next
  case False
  then have w: "w < length (workers st)" and np: "panicked st = None" by simp_all
  show ?thesis
  proof (cases "workers st ! w")
    case Idle
    show ?thesis
    proof (cases "jobs st")
      case Nil
      with Idle w np show ?thesis by (intro exit) (simp_all add: step_def)
    next
      case (Cons j js)
      with Idle w np show ?thesis by (intro take) (simp_all add: step_def)
    qed
  next
    case (Busy j)
    obtain cs res where t: "transferPart e r fs j = (cs, res)" by (cases "transferPart e r fs j")
    show ?thesis
    proof (cases res)
      case (BodyPanic pn)
      with Busy w np t show ?thesis by (intro panic) (simp_all add: step_def)
    next
      case (BodyFail x)
      with Busy w np t show ?thesis by (intro fail) (simp_all add: step_def)
    next
      case (BodyOk p)
      with Busy w np t show ?thesis by (intro ok) (simp_all add: step_def)
    qed
  next
    case (Sending x)
    show ?thesis
    proof (cases "length (errChan st) < length (PresignedURLs r)")
      case True
      with Sending w np show ?thesis by (intro send) (simp_all add: step_def)
    next
      case False
      with Sending w np have "step e r fs w st = st" by (simp add: step_def)
      then show ?thesis by (rule stuck)
    qed
  next
    case Exited
    with w np have "step e r fs w st = st" by (simp add: step_def)
    then show ?thesis by (rule stuck)
  qed
qed

lemma poolInv_parts:
  "poolInv e r fs st \<Longrightarrow> length (parts st) = length (PresignedURLs r)"
  "poolInv e r fs st \<Longrightarrow> k < length (parts st) \<Longrightarrow>
     parts st ! k = zeroPart \<or> (int k < NumParts r \<and> parts st ! k = okPart e (int k))"
  by (simp_all add: poolInv_def)

lemma poolInv_lists:
  "poolInv e r fs st \<Longrightarrow> list_all (inRange r) (jobs st)"
  "poolInv e r fs st \<Longrightarrow> list_all (workerInv e r fs) (workers st)"
  "poolInv e r fs st \<Longrightarrow> list_all (partFailure e r fs) (errChan st)"
  by (simp_all add: poolInv_def)

lemma poolInv_progress:
  "poolInv e r fs st \<Longrightarrow> inRange r j \<Longrightarrow>
     j \<in> set (jobs st) \<or> Busy j \<in> set (workers st) \<or>
     (nat j < length (parts st) \<and> parts st ! nat j = okPart e j) \<or>
     failureSeen st \<or> panicked st \<noteq> None"
  unfolding poolInv_def by blast

lemma poolInv_exit:
  "poolInv e r fs st \<Longrightarrow> Exited \<in> set (workers st) \<Longrightarrow> jobs st = [] \<or> failureSeen st"
  by (simp add: poolInv_def)

lemma poolInvI:
  assumes "length (parts st) = length (PresignedURLs r)"
    and "list_all (inRange r) (jobs st)"
    and "list_all (workerInv e r fs) (workers st)"
    and "list_all (partFailure e r fs) (errChan st)"
    and "\<And>k. k < length (parts st) \<Longrightarrow>
      parts st ! k = zeroPart \<or> (int k < NumParts r \<and> parts st ! k = okPart e (int k))"
    and "\<And>j. inRange r j \<Longrightarrow>
      j \<in> set (jobs st) \<or> Busy j \<in> set (workers st) \<or>
      (nat j < length (parts st) \<and> parts st ! nat j = okPart e j) \<or>
      failureSeen st \<or> panicked st \<noteq> None"
    and "Exited \<in> set (workers st) \<Longrightarrow> jobs st = [] \<or> failureSeen st"
  shows "poolInv e r fs st"
  using assms unfolding poolInv_def by blast

lemma workerInv_nth:
  "list_all (workerInv e r fs) ws \<Longrightarrow> w < length ws \<Longrightarrow> workerInv e r fs (ws ! w)"
  by (simp add: list_all_length)

lemma partFailureI:
  "inRange r j \<Longrightarrow> snd (transferPart e r fs j) = BodyFail x \<Longrightarrow> partFailure e r fs x"
  unfolding partFailure_def list_ex_iff inRange_def
  by (rule bexI [of _ j]) (auto simp: image_iff intro: bexI [of _ "nat j"])

lemma partFailureD:
  "partFailure e r fs x \<Longrightarrow> \<exists>j. inRange r j \<and> snd (transferPart e r fs j) = BodyFail x"
proof -
  assume "partFailure e r fs x"
  then obtain k where k: "k < nat (NumParts r)" "snd (transferPart e r fs (int k)) = BodyFail x"
    unfolding partFailure_def list_ex_iff by auto
  then have "inRange r (int k)" by (simp add: inRange_def)
  with k(2) show ?thesis by blast
qed

lemma failureSeen_cong:
  "errChan st' = errChan st \<Longrightarrow> workers st' = workers st \<Longrightarrow> failureSeen st' = failureSeen st"
  by (simp add: failureSeen_def)

lemma step_poolInv:
  assumes inv: "poolInv e r fs st"
  shows "poolInv e r fs (step e r fs w st)"
proof (cases rule: step_cases [of e r fs w st])
  case stuck
  with inv show ?thesis by simp
next
  case exit
  let ?st = "st\<lparr>workers := (workers st)[w := Exited]\<rparr>"
  have fs: "failureSeen st \<Longrightarrow> failureSeen ?st"
    using step_failureSeen [of st e r fs w] exit(4) by simp
  have "poolInv e r fs ?st"
  proof (rule poolInvI)
    show "list_all (workerInv e r fs) (workers ?st)"
      using poolInv_lists(2) [OF inv] by (simp add: list_all_update)
    show "jobs ?st = [] \<or> failureSeen ?st" using exit(3) by simp
  next
    fix j assume "inRange r j"
    from poolInv_progress [OF inv this] exit(1,2,3) fs
    show "j \<in> set (jobs ?st) \<or> Busy j \<in> set (workers ?st) \<or>
      (nat j < length (parts ?st) \<and> parts ?st ! nat j = okPart e j) \<or>
      failureSeen ?st \<or> panicked ?st \<noteq> None"
      by (auto intro: in_set_update_other)
  qed (use inv in \<open>simp_all add: poolInv_parts poolInv_lists\<close>)
  with exit(4) show ?thesis by simp
next
  case (take j js)
  let ?st = "st\<lparr>jobs := js, workers := (workers st)[w := Busy j]\<rparr>"
  have fs: "failureSeen st \<Longrightarrow> failureSeen ?st"
    using step_failureSeen [of st e r fs w] take(4) by simp
  have rng: "inRange r j" "list_all (inRange r) js"
    using poolInv_lists(1) [OF inv] take(3) by simp_all
  have "poolInv e r fs ?st"
  proof (rule poolInvI)
    show "list_all (inRange r) (jobs ?st)" using rng by simp
    show "list_all (workerInv e r fs) (workers ?st)"
      using poolInv_lists(2) [OF inv] rng by (simp add: list_all_update)
    show "jobs ?st = [] \<or> failureSeen ?st" if "Exited \<in> set (workers ?st)"
    proof -
      from that have "Exited \<in> set (workers st)" by (auto dest: in_set_update_cases)
      from poolInv_exit [OF inv this] take(3) fs show ?thesis by simp
    qed
  next
    fix j' assume "inRange r j'"
    from poolInv_progress [OF inv this] take(1,2,3) fs
    show "j' \<in> set (jobs ?st) \<or> Busy j' \<in> set (workers ?st) \<or>
      (nat j' < length (parts ?st) \<and> parts ?st ! nat j' = okPart e j') \<or>
      failureSeen ?st \<or> panicked ?st \<noteq> None"
      by (auto intro: in_set_update_other set_update_memI)
  qed (use inv in \<open>simp_all add: poolInv_parts poolInv_lists\<close>)
  with take(4) show ?thesis by simp
next
  case (panic j cs pn)
  let ?st = "st\<lparr>netlog := netlog st @ cs, panicked := Some pn\<rparr>"
  have fs: "failureSeen ?st = failureSeen st" by (rule failureSeen_cong) simp_all
  have "poolInv e r fs ?st"
  proof (rule poolInvI)
    show "jobs ?st = [] \<or> failureSeen ?st" if "Exited \<in> set (workers ?st)"
      using poolInv_exit [OF inv] that fs by simp
  qed (use inv in \<open>simp_all add: poolInv_parts poolInv_lists\<close>)
  with panic(4) show ?thesis by simp
next
  case (fail j cs x)
  let ?st = "st\<lparr>netlog := netlog st @ cs, workers := (workers st)[w := Sending x]\<rparr>"
  have "workerInv e r fs (workers st ! w)"
    using workerInv_nth [OF poolInv_lists(2) [OF inv] fail(1)] .
  then have rng: "inRange r j" using fail(2) by simp
  have "snd (transferPart e r fs j) = BodyFail x" using fail(3) by simp
  with rng have pf: "partFailure e r fs x" by (rule partFailureI)
  have fs: "failureSeen ?st"
    unfolding failureSeen_iff using fail(1) by (auto intro: set_update_memI)
  have "poolInv e r fs ?st"
  proof (rule poolInvI)
    show "list_all (workerInv e r fs) (workers ?st)"
      using poolInv_lists(2) [OF inv] pf by (simp add: list_all_update)
  qed (use inv fs in \<open>simp_all add: poolInv_parts poolInv_lists\<close>)
  with fail(4) show ?thesis by simp
next
  case (ok j cs p)
  let ?st = "st\<lparr>netlog := netlog st @ cs,
                  parts := (parts st)[nat j := p],
                  barCurrent := barCurrent st + 1,
                  barRemaining := remainingOf (NumParts r) j (elapsedNanos (partIO e j)),
                  workers := (workers st)[w := Idle]\<rparr>"
  have fs: "failureSeen st \<Longrightarrow> failureSeen ?st"
    using step_failureSeen [of st e r fs w] ok(5) by simp
  have "workerInv e r fs (workers st ! w)"
    using workerInv_nth [OF poolInv_lists(2) [OF inv] ok(1)] .
  then have rng: "inRange r j" using ok(2) by simp
  have res: "snd (transferPart e r fs j) = BodyOk p" using ok(4) by simp
  then have ans: "putAnswered e r fs j" by (rule transferPart_ok_answered)
  have p: "p = okPart e j" using transferPart_answered [OF ans] res by (simp split: if_splits)
  have len: "length (parts st) = length (PresignedURLs r)" by (rule poolInv_parts(1) [OF inv])
  have "0 \<le> j \<and> j < int (length (PresignedURLs r))"
    using ans by (simp add: putAnswered_def putSent_def)
  then have jl: "nat j < length (parts st)" using len by linarith
  have j0: "0 \<le> j" using rng by (simp add: inRange_def)
  have "poolInv e r fs ?st"
  proof (rule poolInvI)
    show "length (parts ?st) = length (PresignedURLs r)" using len by simp
    show "list_all (workerInv e r fs) (workers ?st)"
      using poolInv_lists(2) [OF inv] by (simp add: list_all_update)
    show "jobs ?st = [] \<or> failureSeen ?st" if "Exited \<in> set (workers ?st)"
    proof -
      from that have "Exited \<in> set (workers st)" by (auto dest: in_set_update_cases)
      from poolInv_exit [OF inv this] fs show ?thesis by auto
    qed
  next
    fix k assume k: "k < length (parts ?st)"
    show "parts ?st ! k = zeroPart \<or> (int k < NumParts r \<and> parts ?st ! k = okPart e (int k))"
    proof (cases "k = nat j")
      case True
      then show ?thesis using jl p j0 rng by (simp add: inRange_def)
    next
      case False
      then show ?thesis using poolInv_parts(2) [OF inv, of k] k by simp
    qed
  next
    fix j' assume r': "inRange r j'"
    show "j' \<in> set (jobs ?st) \<or> Busy j' \<in> set (workers ?st) \<or>
      (nat j' < length (parts ?st) \<and> parts ?st ! nat j' = okPart e j') \<or>
      failureSeen ?st \<or> panicked ?st \<noteq> None"
    proof (cases "j' = j")
      case True
      then show ?thesis using jl p by simp
    next
      case False
      moreover have "0 \<le> j'" using r' by (simp add: inRange_def)
      ultimately have ne: "nat j' \<noteq> nat j" using j0 by linarith
      from poolInv_progress [OF inv r'] ok(1,2) fs False ne
      show ?thesis by (auto intro: in_set_update_other)
    qed
  qed (use inv in \<open>simp_all add: poolInv_parts poolInv_lists\<close>)
  with ok(5) show ?thesis by simp
next
  case (send x)
  let ?st = "st\<lparr>errChan := errChan st @ [x], workers := (workers st)[w := Exited]\<rparr>"
  have "workerInv e r fs (workers st ! w)"
    using workerInv_nth [OF poolInv_lists(2) [OF inv] send(1)] .
  then have pf: "partFailure e r fs x" using send(2) by simp
  have fs: "failureSeen ?st" by (simp add: failureSeen_def)
  have "poolInv e r fs ?st"
  proof (rule poolInvI)
    show "list_all (workerInv e r fs) (workers ?st)"
      using poolInv_lists(2) [OF inv] by (simp add: list_all_update)
    show "list_all (partFailure e r fs) (errChan ?st)"
      using poolInv_lists(3) [OF inv] pf by simp
  qed (use inv fs in \<open>simp_all add: poolInv_parts poolInv_lists\<close>)
  with send(3) show ?thesis by simp
qed

lemma initPool_poolInv: "poolInv e r fs (initPool r c cs)"
proof (rule poolInvI)
  show "list_all (inRange r) (jobs (initPool r c cs))"
    by (auto simp: initPool_def list_all_iff inRange_def)
  show "list_all (workerInv e r fs) (workers (initPool r c cs))"
    by (simp add: initPool_def list_all_iff)
  show "jobs (initPool r c cs) = [] \<or> failureSeen (initPool r c cs)"
    if "Exited \<in> set (workers (initPool r c cs))"
    using that by (simp add: initPool_def)
next
  fix j assume "inRange r j"
  then have "j \<in> set (jobs (initPool r c cs))"
    by (auto simp: initPool_def inRange_def image_iff intro: bexI [of _ "nat j"])
  then show "j \<in> set (jobs (initPool r c cs)) \<or> Busy j \<in> set (workers (initPool r c cs)) \<or>
      (nat j < length (parts (initPool r c cs)) \<and> parts (initPool r c cs) ! nat j = okPart e j) \<or>
      failureSeen (initPool r c cs) \<or> panicked (initPool r c cs) \<noteq> None"
    by simp
qed (simp_all add: initPool_def)

lemma run_poolInv: "poolInv e r fs st \<Longrightarrow> poolInv e r fs (run e r fs ws st)"
  by (rule run_invariant [where I = "poolInv e r fs"]) (rule step_poolInv)

lemma poolAfter_poolInv: "poolInv e r fs (poolAfter e name fs r ws)"
  unfolding poolAfter_def by (rule run_poolInv) (rule initPool_poolInv)

lemma run_failureSeen: "failureSeen st \<Longrightarrow> failureSeen (run e r fs ws st)"
  by (rule run_invariant [where I = failureSeen]) (rule step_failureSeen)

lemma poolAfter_append:
  "poolAfter e name fs r (ws1 @ ws2) = run e r fs ws2 (poolAfter e name fs r ws1)"
  by (simp add: poolAfter_def run_append)

lemma poolAfter_finalizerCalls: "finalizerCalls (netlog (poolAfter e name fs r ws)) = []"
  unfolding poolAfter_def run_finalizerCalls by (simp add: initPool_def finalizerCalls_def)

lemma failureSeen_allExited: "failureSeen st \<Longrightarrow> allExited st \<Longrightarrow> errChan st \<noteq> []"
  unfolding failureSeen_iff allExited_def list_all_iff by auto

lemma failureSeen_partFailure:
  assumes "poolInv e r fs st" and "failureSeen st"
  shows "\<exists>x. partFailure e r fs x"
proof -
  from assms(2) consider x xs where "errChan st = x # xs" | x where "Sending x \<in> set (workers st)"
    unfolding failureSeen_iff by (cases "errChan st") auto
  then show ?thesis
  proof cases
    case 1
    with poolInv_lists(3) [OF assms(1)] show ?thesis by auto
  next
    case 2
    from poolInv_lists(2) [OF assms(1)] have "\<forall>w\<in>set (workers st). workerInv e r fs w"
      by (simp add: list_all_iff)
    with 2 have "workerInv e r fs (Sending x)" by blast
    then show ?thesis by auto
  qed
qed

lemma multipartUpload_pool:
  assumes "statResult e = Inr fs" and "createMediaUpload (debug e) (negotiate e) = Inr r"
    and "poolStarts e r"
  shows "multipartUpload e name ws =
    (let st = poolAfter e name fs r ws in
     case panicked st of
       Some pn \<Rightarrow> (Crashed pn, netlog st)
     | None \<Rightarrow>
        if \<not> allExited st then (Waiting, netlog st)
        else case errChan st of
          x # xs \<Rightarrow> (Returned (Some x), netlog st)
        | [] \<Rightarrow>
          (case completeMultipartUpload (debug e) (complete e (parts st)) of
             Some x \<Rightarrow> (Returned (Some (FailedComplete x)),
                        netlog st @ [CallComplete (MediaUploadID r) (UploadID r) (parts st)])
           | None \<Rightarrow> (Returned None,
                        netlog st @ [CallComplete (MediaUploadID r) (UploadID r) (parts st)])))"
  using assms
  by (auto simp: multipartUpload_def poolAfter_def Let_def split: option.splits list.splits)

subsection \<open>Every run can be completed\<close>

lemma filter_update_count:
  "w < length xs \<Longrightarrow>
   length (filter P (xs[w := v])) + (if P (xs ! w) then 1 else 0) =
   length (filter P xs) + (if P v then 1 else 0)"
proof (induction xs arbitrary: w)
  case Nil
  then show ?case by simp
next
  case (Cons x xs)
  then show ?case by (cases w) auto
qed

lemma weight_update:
  "w < length xs \<Longrightarrow>
   sum_list (map weight (xs[w := v])) + weight (xs ! w) = sum_list (map weight xs) + weight v"
proof (induction xs arbitrary: w)
  case Nil
  then show ?case by simp
next
  case (Cons x xs)
  then show ?case by (cases w) auto
qed

lemma transferPart_no_panic_index:
  "snd (transferPart e r fs j) = BodyOk p \<or> snd (transferPart e r fs j) = BodyFail x \<Longrightarrow>
   0 \<le> j \<and> j < int (length (PresignedURLs r))"
  by (auto simp: transferPart_def Let_def split: if_splits)

lemma capInvI:
  assumes "k \<le> nat (NumParts r)" and "jobs st = map int [k ..< nat (NumParts r)]"
    and "length (errChan st) + length (filter isSending (workers st)) +
          length (filter isBusy (workers st)) \<le> k"
    and "\<And>j. panicked st = None \<Longrightarrow> length (PresignedURLs r) \<le> j \<Longrightarrow> j < k \<Longrightarrow>
          Busy (int j) \<in> set (workers st)"
  shows "capInv r st"
proof -
  have "panicked st = None \<longrightarrow>
    (\<forall>j. length (PresignedURLs r) \<le> j \<and> j < k \<longrightarrow> Busy (int j) \<in> set (workers st))"
    using assms(4) by simp
  with assms(1-3) show ?thesis unfolding capInv_def by (intro exI [of _ k] conjI)
qed

lemma step_capInv:
  assumes inv: "capInv r st"
  shows "capInv r (step e r fs w st)"
proof -
  from inv obtain k where "k \<le> nat (NumParts r) \<and>
        jobs st = map int [k ..< nat (NumParts r)] \<and>
        length (errChan st) + length (filter isSending (workers st)) +
          length (filter isBusy (workers st)) \<le> k \<and>
        (panicked st = None \<longrightarrow>
           (\<forall>j. length (PresignedURLs r) \<le> j \<and> j < k \<longrightarrow> Busy (int j) \<in> set (workers st)))"
    unfolding capInv_def by (elim exE)
  then have k: "k \<le> nat (NumParts r)"
    and jobs: "jobs st = map int [k ..< nat (NumParts r)]"
    and cnt: "length (errChan st) + length (filter isSending (workers st)) +
          length (filter isBusy (workers st)) \<le> k"
    and held: "\<And>j. panicked st = None \<Longrightarrow> length (PresignedURLs r) \<le> j \<Longrightarrow> j < k \<Longrightarrow>
          Busy (int j) \<in> set (workers st)"
    by simp_all
  note B = filter_update_count [where P = isBusy and xs = "workers st" and w = w]
  note S = filter_update_count [where P = isSending and xs = "workers st" and w = w]
  have keep: "Busy (int j) \<in> set ((workers st)[w := v])"
    if "panicked st = None" "length (PresignedURLs r) \<le> j" "j < k"
      "w < length (workers st)" "workers st ! w \<noteq> Busy (int j)" for j v
    using held [OF that(1,2,3)] that(4,5) by (rule in_set_update_other)
  show ?thesis
  proof (cases rule: step_cases [of e r fs w st])
    case stuck
    with inv show ?thesis by simp
  next
    case exit
    let ?st = "st\<lparr>workers := (workers st)[w := Exited]\<rparr>"
    have "capInv r ?st"
    proof (rule capInvI [of k])
      show "length (errChan ?st) + length (filter isSending (workers ?st)) +
          length (filter isBusy (workers ?st)) \<le> k"
        using cnt B [of Exited] S [of Exited] exit(1,2) by simp
      show "Busy (int j) \<in> set (workers ?st)"
        if "panicked ?st = None" "length (PresignedURLs r) \<le> j" "j < k" for j
        using keep [of j Exited] that exit(1,2) by simp
    qed (use k jobs in simp_all)
    with exit(4) show ?thesis by simp
  next
    case (take j js)
    let ?st = "st\<lparr>jobs := js, workers := (workers st)[w := Busy j]\<rparr>"
    have "[k ..< nat (NumParts r)] \<noteq> []" using jobs take(3) by auto
    then have kn: "k < nat (NumParts r)" by simp
    then have "map int [k ..< nat (NumParts r)] = int k # map int [Suc k ..< nat (NumParts r)]"
      by (simp add: upt_conv_Cons)
    with jobs take(3) have j: "j = int k" and js: "js = map int [Suc k ..< nat (NumParts r)]"
      by simp_all
    have "capInv r ?st"
    proof (rule capInvI [of "Suc k"])
      show "Suc k \<le> nat (NumParts r)" using kn by simp
      show "jobs ?st = map int [Suc k ..< nat (NumParts r)]" using js by simp
      show "length (errChan ?st) + length (filter isSending (workers ?st)) +
          length (filter isBusy (workers ?st)) \<le> Suc k"
        using cnt B [of "Busy j"] S [of "Busy j"] take(1,2) by simp
      show "Busy (int j') \<in> set (workers ?st)"
        if a: "panicked ?st = None" "length (PresignedURLs r) \<le> j'" "j' < Suc k" for j'
      proof (cases "j' = k")
        case True
        then show ?thesis using take(1) j by (simp add: set_update_memI)
      next
        case False
        then have "j' < k" using a(3) by simp
        then show ?thesis using keep [of j' "Busy j"] a take(1,2) by simp
      qed
    qed
    with take(4) show ?thesis by simp
  next
    case (panic j cs pn)
    let ?st = "st\<lparr>netlog := netlog st @ cs, panicked := Some pn\<rparr>"
    have "capInv r ?st"
      by (rule capInvI [of k]) (use k jobs cnt in simp_all)
    with panic(4) show ?thesis by simp
  next
    case (fail j cs x)
    let ?st = "st\<lparr>netlog := netlog st @ cs, workers := (workers st)[w := Sending x]\<rparr>"
    have "snd (transferPart e r fs j) = BodyFail x" using fail(3) by simp
    then have jl: "0 \<le> j \<and> j < int (length (PresignedURLs r))"
      using transferPart_no_panic_index [of e r fs j _ x] by blast
    have "capInv r ?st"
    proof (rule capInvI [of k])
      show "length (errChan ?st) + length (filter isSending (workers ?st)) +
          length (filter isBusy (workers ?st)) \<le> k"
        using cnt B [of "Sending x"] S [of "Sending x"] fail(1,2) by simp
      show "Busy (int j') \<in> set (workers ?st)"
        if a: "panicked ?st = None" "length (PresignedURLs r) \<le> j'" "j' < k" for j'
      proof -
        have "j \<noteq> int j'" using jl a(2) by linarith
        then show ?thesis using keep [of j' "Sending x"] a fail(1,2) by simp
      qed
    qed (use k jobs in simp_all)
    with fail(4) show ?thesis by simp
  next
    case (ok j cs p)
    let ?st = "st\<lparr>netlog := netlog st @ cs,
                  parts := (parts st)[nat j := p],
                  barCurrent := barCurrent st + 1,
                  barRemaining := remainingOf (NumParts r) j (elapsedNanos (partIO e j)),
                  workers := (workers st)[w := Idle]\<rparr>"
    have "snd (transferPart e r fs j) = BodyOk p" using ok(4) by simp
    then have jl: "0 \<le> j \<and> j < int (length (PresignedURLs r))"
      using transferPart_no_panic_index [of e r fs j p] by blast
    have "capInv r ?st"
    proof (rule capInvI [of k])
      show "length (errChan ?st) + length (filter isSending (workers ?st)) +
          length (filter isBusy (workers ?st)) \<le> k"
        using cnt B [of Idle] S [of Idle] ok(1,2) by simp
      show "Busy (int j') \<in> set (workers ?st)"
        if a: "panicked ?st = None" "length (PresignedURLs r) \<le> j'" "j' < k" for j'
      proof -
        have "j \<noteq> int j'" using jl a(2) by linarith
        then show ?thesis using keep [of j' Idle] a ok(1,2) by simp
      qed
    qed (use k jobs in simp_all)
    with ok(5) show ?thesis by simp
  next
    case (send x)
    let ?st = "st\<lparr>errChan := errChan st @ [x], workers := (workers st)[w := Exited]\<rparr>"
    have "capInv r ?st"
    proof (rule capInvI [of k])
      show "length (errChan ?st) + length (filter isSending (workers ?st)) +
          length (filter isBusy (workers ?st)) \<le> k"
        using cnt B [of Exited] S [of Exited] send(1,2) by simp
      show "Busy (int j') \<in> set (workers ?st)"
        if "panicked ?st = None" "length (PresignedURLs r) \<le> j'" "j' < k" for j'
        using keep [of j' Exited] that send(1,2) by simp
    qed (use k jobs in simp_all)
    with send(3) show ?thesis by simp
  qed
qed

lemma initPool_capInv: "capInv r (initPool r c cs)"
  by (rule capInvI [of 0]) (simp_all add: initPool_def)

lemma busy_count:
  assumes "\<And>j. n \<le> j \<Longrightarrow> j < k \<Longrightarrow> Busy (int j) \<in> set ws"
  shows "k - n \<le> length (filter isBusy ws)"
proof -
  have "(\<lambda>j. Busy (int j)) ` {n..<k} \<subseteq> set (filter isBusy ws)"
    using assms by auto
  then have "card ((\<lambda>j. Busy (int j)) ` {n..<k}) \<le> card (set (filter isBusy ws))"
    by (intro card_mono) simp_all
  moreover have "card ((\<lambda>j. Busy (int j)) ` {n..<k}) = k - n"
    by (subst card_image) (simp_all add: inj_on_def)
  moreover have "card (set (filter isBusy ws)) \<le> length (filter isBusy ws)"
    by (rule card_length)
  ultimately show ?thesis by linarith
qed

lemma errChan_has_room:
  assumes inv: "capInv r st" and np: "panicked st = None"
    and w: "w < length (workers st)" "workers st ! w = Sending x"
  shows "length (errChan st) < length (PresignedURLs r)"
proof -
  from inv obtain k where "k \<le> nat (NumParts r) \<and>
        jobs st = map int [k ..< nat (NumParts r)] \<and>
        length (errChan st) + length (filter isSending (workers st)) +
          length (filter isBusy (workers st)) \<le> k \<and>
        (panicked st = None \<longrightarrow>
           (\<forall>j. length (PresignedURLs r) \<le> j \<and> j < k \<longrightarrow> Busy (int j) \<in> set (workers st)))"
    unfolding capInv_def by (elim exE)
  then have cnt: "length (errChan st) + length (filter isSending (workers st)) +
          length (filter isBusy (workers st)) \<le> k"
    and held: "\<And>j. length (PresignedURLs r) \<le> j \<Longrightarrow> j < k \<Longrightarrow>
          Busy (int j) \<in> set (workers st)"
    using np by simp_all
  have "Sending x \<in> set (workers st)" using w nth_mem [of w "workers st"] by simp
  then have "Sending x \<in> set (filter isSending (workers st))" by simp
  then have "0 < length (filter isSending (workers st))" by (rule length_pos_if_in_set)
  then have s1: "1 \<le> length (filter isSending (workers st))" by linarith
  have "k - length (PresignedURLs r) \<le> length (filter isBusy (workers st))"
    using held by (rule busy_count)
  with cnt s1 show ?thesis by linarith
qed

lemma step_progress:
  assumes inv: "capInv r st" and np: "panicked st = None"
    and w: "w < length (workers st)" and ne: "workers st ! w \<noteq> Exited"
  shows "panicked (step e r fs w st) \<noteq> None \<or> workLeft (step e r fs w st) < workLeft st"
proof (cases "workers st ! w")
  case Idle
  note W = weight_update [OF w, of _]
  show ?thesis
  proof (cases "jobs st")
    case Nil
    then show ?thesis using Idle np w W [of Exited] by (simp add: step_def workLeft_def)
  next
    case (Cons j js)
    then show ?thesis using Idle np w W [of "Busy j"] by (simp add: step_def workLeft_def)
  qed
next
  case (Busy j)
  note W = weight_update [OF w, of _]
  obtain cs res where t: "transferPart e r fs j = (cs, res)" by (cases "transferPart e r fs j")
  show ?thesis
  proof (cases res)
    case (BodyPanic pn)
    then show ?thesis using Busy np w t by (simp add: step_def)
  next
    case (BodyFail x)
    then show ?thesis using Busy np w t W [of "Sending x"] by (simp add: step_def workLeft_def)
  next
    case (BodyOk p)
    then show ?thesis using Busy np w t W [of Idle] by (simp add: step_def workLeft_def)
  qed
next
  case (Sending x)
  have "length (errChan st) < length (PresignedURLs r)"
    using inv np w Sending by (rule errChan_has_room)
  then show ?thesis
    using Sending np w weight_update [OF w, of Exited] by (simp add: step_def workLeft_def)
next
  case Exited
  with ne show ?thesis by simp
qed

lemma can_finish:
  "capInv r st \<Longrightarrow> \<exists>ws. finished (run e r fs ws st)"
proof (induction "workLeft st" arbitrary: st rule: less_induct)
  case less
  show ?case
  proof (cases "finished st")
    case True
    then have "finished (run e r fs [] st)" by simp
    then show ?thesis ..
  next
    case False
    then have np: "panicked st = None" and nx: "\<not> allExited st" by (simp_all add: finished_def)
    from nx obtain w where w: "w < length (workers st)" "workers st ! w \<noteq> Exited"
      by (auto simp: allExited_def list_all_length)
    let ?st = "step e r fs w st"
    have inv: "capInv r ?st" using less.prems by (rule step_capInv)
    from step_progress [OF less.prems np w, of e fs]
    show ?thesis
    proof
      assume "panicked ?st \<noteq> None"
      then have "finished (run e r fs [w] st)" by (simp add: finished_def)
      then show ?thesis ..
    next
      assume "workLeft ?st < workLeft st"
      from less.hyps [OF this inv] obtain ws where "finished (run e r fs ws ?st)" ..
      then have "finished (run e r fs (w # ws) st)" by simp
      then show ?thesis ..
    qed
  qed
qed

lemma run_capInv: "capInv r st \<Longrightarrow> capInv r (run e r fs ws st)"
  by (rule run_invariant [where I = "capInv r"]) (rule step_capInv)

lemma poolAfter_can_finish:
  "\<exists>ws'. finished (poolAfter e name fs r (ws @ ws'))"
proof -
  have "capInv r (poolAfter e name fs r ws)"
    unfolding poolAfter_def by (rule run_capInv) (rule initPool_capInv)
  from can_finish [OF this, of e fs] show ?thesis by (simp add: poolAfter_append)
qed

subsection \<open>A failed part transfer\<close>

lemma transferPart_panicFree:
  assumes pf: "panicFree e r fs" and j: "inRange r j"
  shows "snd (transferPart e r fs j) \<noteq> BodyPanic pn"
proof -
  from pf have le: "NumParts r \<le> int (length (PresignedURLs r))" and mk: "canMake e (PartSize r)"
    and sz: "(NumParts r - 1) * PartSize r \<le> fs"
    by (simp_all add: panicFree_def)
  have idx: "0 \<le> j \<and> j < int (length (PresignedURLs r))" using j le by (simp add: inRange_def)
  have P: "0 \<le> PartSize r" using mk by (simp add: canMake_def)
  have "j \<le> NumParts r - 1" using j by (simp add: inRange_def)
  then have "j * PartSize r \<le> (NumParts r - 1) * PartSize r" using P by (rule mult_right_mono)
  then have "0 \<le> fs - j * PartSize r" using sz by simp
  then have rs: "0 \<le> readSizeOf (PartSize r) fs (partOffsetOf j (PartSize r))"
    using P by (simp add: readSizeOf_def partOffsetOf_def)
  show ?thesis using idx mk rs
    by (simp add: transferPart_def Let_def split: option.splits)
qed

lemma step_no_panic:
  assumes pf: "panicFree e r fs" and inv: "poolInv e r fs st" and np: "panicked st = None"
  shows "panicked (step e r fs w st) = None"
proof (cases rule: step_cases [of e r fs w st])
  case (panic j cs pn)
  have "workerInv e r fs (workers st ! w)"
    using workerInv_nth [OF poolInv_lists(2) [OF inv] panic(1)] .
  then have "inRange r j" using panic(2) by simp
  from transferPart_panicFree [OF pf this, of pn] panic(3) show ?thesis by simp
qed (use np in simp_all)

lemma run_no_panic:
  assumes pf: "panicFree e r fs"
  shows "poolInv e r fs st \<and> panicked st = None \<Longrightarrow> panicked (run e r fs ws st) = None"
proof (induction ws arbitrary: st)
  case Nil
  then show ?case by simp
next
  case (Cons w ws)
  then have "poolInv e r fs (step e r fs w st) \<and> panicked (step e r fs w st) = None"
    using step_poolInv step_no_panic [OF pf] by blast
  then show ?case using Cons.IH by simp
qed

lemma poolAfter_no_panic:
  "panicFree e r fs \<Longrightarrow> panicked (poolAfter e name fs r ws) = None"
  unfolding poolAfter_def
  by (rule run_no_panic) (simp_all add: initPool_poolInv, simp add: initPool_def)

lemma failed_part_outcome:
  assumes stat: "statResult e = Inr fileSize"
    and neg: "createMediaUpload (debug e) (negotiate e) = Inr r"
    and starts: "poolStarts e r"
    and seen: "failureSeen (poolAfter e fileName fileSize r ws1)"
  shows "finalizerCalls (snd (multipartUpload e fileName (ws1 @ ws2))) = [] \<and>
    fst (multipartUpload e fileName (ws1 @ ws2)) \<noteq> Returned None \<and>
    (\<forall>x. fst (multipartUpload e fileName (ws1 @ ws2)) = Returned (Some x) \<longrightarrow>
       errChan (poolAfter e fileName fileSize r (ws1 @ ws2)) \<noteq> [] \<and>
       x = hd (errChan (poolAfter e fileName fileSize r (ws1 @ ws2))) \<and>
       isPartError x \<and> partFailure e r fileSize x) \<and>
    (panicked (poolAfter e fileName fileSize r (ws1 @ ws2)) = None \<and>
     allExited (poolAfter e fileName fileSize r (ws1 @ ws2)) \<longrightarrow>
       fst (multipartUpload e fileName (ws1 @ ws2)) =
         Returned (Some (hd (errChan (poolAfter e fileName fileSize r (ws1 @ ws2))))))"
proof -
  let ?st = "poolAfter e fileName fileSize r (ws1 @ ws2)"
  let ?m = "multipartUpload e fileName (ws1 @ ws2)"
  have inv: "poolInv e r fileSize ?st" by (rule poolAfter_poolInv)
  have fs: "failureSeen ?st" unfolding poolAfter_append using seen by (rule run_failureSeen)
  note m = multipartUpload_pool [OF stat neg starts, of fileName "ws1 @ ws2"]
  have nolog: "finalizerCalls (netlog ?st) = []" by (rule poolAfter_finalizerCalls)
  have ex: "errChan ?st \<noteq> []" if "allExited ?st" using fs that by (rule failureSeen_allExited)
  have pf: "partFailure e r fileSize (hd (errChan ?st))" if "errChan ?st \<noteq> []"
    using poolInv_lists(3) [OF inv] that by (cases "errChan ?st") simp_all
  have pe: "isPartError (hd (errChan ?st))" if "errChan ?st \<noteq> []"
    using partFailureD [OF pf [OF that]] transferPart_fail_isPartError by blast
  show ?thesis
  proof (cases "panicked ?st")
    case (Some pn)
    then have "?m = (Crashed pn, netlog ?st)" using m by (simp add: Let_def)
    then show ?thesis using nolog Some by simp
  next
    case None
    show ?thesis
    proof (cases "allExited ?st")
      case False
      then have "?m = (Waiting, netlog ?st)" using m None by (simp add: Let_def)
      then show ?thesis using nolog False by simp
    next
      case True
      from ex [OF True] obtain x xs where c: "errChan ?st = x # xs" by (cases "errChan ?st") auto
      then have "?m = (Returned (Some x), netlog ?st)" using m None True by (simp add: Let_def)
      then show ?thesis using nolog c pf pe by simp
    qed
  qed
qed

text \<open>
  C1, as the claim states it, fails: a run in which a part transfer fails need not
  return at all. A session of four parts comes with three targets; part 0 is answered
  with status 500 and its worker sends the error and returns; the other worker goes on
  to part 3, whose index into the target list is out of range, and the process dies of
  the panic: \<^verbatim>\<open>multipartUpload\<close> returns nothing.
\<close>

theorem failed_part_then_panic:
  "failureSeen (poolAfter (demoEnv (failAt 0) (demoResponse\<lparr>NumParts := 4\<rparr>)) ''f.mp4'' 10
      (demoResponse\<lparr>NumParts := 4\<rparr>) [0, 1, 0]) \<and>
   multipartUpload (demoEnv (failAt 0) (demoResponse\<lparr>NumParts := 4\<rparr>)) ''f.mp4''
      ([0, 1, 0] @ [0, 1, 1, 1, 1, 1]) =
   (Crashed IndexOutOfRange,
    [CallCreate ''f.mp4'' 10, CallPut 0 ''u0'' [1, 2, 3, 4], CallPut 1 ''u1'' [5, 6, 7, 8],
     CallPut 2 ''u2'' [9, 10]])"
  by code_simp

text \<open>
  C1, amended. Take a run of \<^verbatim>\<open>multipartUpload\<close> that gets past negotiation and
  starts the pool, and a point of it (the schedule \<open>ws1\<close>) at which a part transfer
  has failed; let the run go on in any way (\<open>ws2\<close>). Then the finalizer is not called
  and the call does not return \<^verbatim>\<open>nil\<close>; an error it returns is the oldest one in the
  error channel, the first to be drained, and it is the failure of one of the parts of
  the session; when all workers have returned without a panic, the call does return
  that error; no worker panics when the session has a target for every part, a part
  buffer that can be made and no part that begins beyond the end of the file; and the
  run can always be continued until all workers have returned or the process has
  panicked (a send on the error channel never blocks for good). A run in which a
  worker panics returns nothing. The order of the channel is the order of the sends,
  not of the failures: \<open>drain_order_example\<close> below has two runs in which part 0
  fails first and the error returned is that of part 0 in one and that of part 1 in
  the other.
\<close>

theorem failed_part_prevents_finalization:
  assumes stat: "statResult e = Inr fileSize"
    and neg: "createMediaUpload (debug e) (negotiate e) = Inr r"
    and starts: "poolStarts e r"
    and seen: "failureSeen (poolAfter e fileName fileSize r ws1)"
  shows "finalizerCalls (snd (multipartUpload e fileName (ws1 @ ws2))) = [] \<and>
    fst (multipartUpload e fileName (ws1 @ ws2)) \<noteq> Returned None \<and>
    (\<forall>x. fst (multipartUpload e fileName (ws1 @ ws2)) = Returned (Some x) \<longrightarrow>
       errChan (poolAfter e fileName fileSize r (ws1 @ ws2)) \<noteq> [] \<and>
       x = hd (errChan (poolAfter e fileName fileSize r (ws1 @ ws2))) \<and>
       isPartError x \<and> partFailure e r fileSize x) \<and>
    (panicked (poolAfter e fileName fileSize r (ws1 @ ws2)) = None \<and>
     allExited (poolAfter e fileName fileSize r (ws1 @ ws2)) \<longrightarrow>
       fst (multipartUpload e fileName (ws1 @ ws2)) =
         Returned (Some (hd (errChan (poolAfter e fileName fileSize r (ws1 @ ws2)))))) \<and>
    (panicFree e r fileSize \<longrightarrow>
       panicked (poolAfter e fileName fileSize r (ws1 @ ws2)) = None) \<and>
    (\<forall>pn. panicked (poolAfter e fileName fileSize r (ws1 @ ws2)) = Some pn \<longrightarrow>
       fst (multipartUpload e fileName (ws1 @ ws2)) = Crashed pn) \<and>
    (\<exists>ws3. finished (poolAfter e fileName fileSize r ((ws1 @ ws2) @ ws3)))"
proof -
  have "\<forall>pn. panicked (poolAfter e fileName fileSize r (ws1 @ ws2)) = Some pn \<longrightarrow>
       fst (multipartUpload e fileName (ws1 @ ws2)) = Crashed pn"
    unfolding multipartUpload_pool [OF stat neg starts] by (simp add: Let_def)
  then show ?thesis
    using failed_part_outcome [OF stat neg starts seen, of ws2]
      poolAfter_can_finish [of e fileName fileSize r "ws1 @ ws2"]
      poolAfter_no_panic [of e r fileSize fileName "ws1 @ ws2"]
    by blast
qed

theorem failed_part_prevents_finalization_witness:
  "failureSeen (poolAfter (demoEnv (failAt 1) demoResponse) ''f.mp4'' 10 demoResponse [0, 1, 0, 1]) \<and>
   panicFree (demoEnv (failAt 1) demoResponse) demoResponse 10 \<and>
   finalizerCalls (snd (multipartUpload (demoEnv (failAt 1) demoResponse) ''f.mp4''
      ([0, 1, 0, 1] @ [0, 1, 0, 1, 0, 0, 1, 1]))) = [] \<and>
   panicked (poolAfter (demoEnv (failAt 1) demoResponse) ''f.mp4'' 10 demoResponse
      ([0, 1, 0, 1] @ [0, 1, 0, 1, 0, 0, 1, 1])) = None \<and>
   multipartUpload (demoEnv (failAt 1) demoResponse) ''f.mp4''
      ([0, 1, 0, 1] @ [0, 1, 0, 1, 0, 0, 1, 1]) =
   (Returned (Some (Non200Status 1 500)),
    [CallCreate ''f.mp4'' 10, CallPut 0 ''u0'' [1, 2, 3, 4], CallPut 1 ''u1'' [5, 6, 7, 8],
     CallPut 2 ''u2'' [9, 10]])"
proof -
  have stat: "statResult (demoEnv (failAt 1) demoResponse) = Inr 10"
    by (simp add: demoEnv_def)
  have neg: "createMediaUpload (debug (demoEnv (failAt 1) demoResponse))
      (negotiate (demoEnv (failAt 1) demoResponse)) = Inr demoResponse"
    by code_simp
  have starts: "poolStarts (demoEnv (failAt 1) demoResponse) demoResponse"
    by code_simp
  have seen: "failureSeen
      (poolAfter (demoEnv (failAt 1) demoResponse) ''f.mp4'' 10 demoResponse [0, 1, 0, 1])"
    by code_simp
  have pf: "panicFree (demoEnv (failAt 1) demoResponse) demoResponse 10"
    by code_simp
  note t = failed_part_prevents_finalization [OF stat neg starts seen, of "[0, 1, 0, 1, 0, 0, 1, 1]"]
  from t have a: "finalizerCalls (snd (multipartUpload (demoEnv (failAt 1) demoResponse) ''f.mp4''
      ([0, 1, 0, 1] @ [0, 1, 0, 1, 0, 0, 1, 1]))) = []"
    by (elim conjE)
  from t pf have n: "panicked (poolAfter (demoEnv (failAt 1) demoResponse) ''f.mp4'' 10 demoResponse
      ([0, 1, 0, 1] @ [0, 1, 0, 1, 0, 0, 1, 1])) = None"
    by blast
  have b: "multipartUpload (demoEnv (failAt 1) demoResponse) ''f.mp4''
      ([0, 1, 0, 1] @ [0, 1, 0, 1, 0, 0, 1, 1]) =
   (Returned (Some (Non200Status 1 500)),
    [CallCreate ''f.mp4'' 10, CallPut 0 ''u0'' [1, 2, 3, 4], CallPut 1 ''u1'' [5, 6, 7, 8],
     CallPut 2 ''u2'' [9, 10]])"
    by code_simp
  show ?thesis by (intro conjI seen pf a n b)
qed

text \<open>The error channel is drained in the order of the sends.\<close>

lemma drain_order_example:
  "fst (multipartUpload (demoEnv (constStatus 500) demoResponse) ''f.mp4'' [0, 1, 0, 1, 0, 1]) =
     Returned (Some (Non200Status 0 500)) \<and>
   fst (multipartUpload (demoEnv (constStatus 500) demoResponse) ''f.mp4'' [0, 1, 0, 1, 1, 0]) =
     Returned (Some (Non200Status 1 500))"
  by code_simp

subsection \<open>The manifest of a successful run\<close>

lemma step_length_workers: "length (workers (step e r fs w st)) = length (workers st)"
  by (cases rule: step_cases [of e r fs w st]) simp_all

lemma run_length_workers: "length (workers (run e r fs ws st)) = length (workers st)"
  by (induction ws arbitrary: st) (simp_all add: step_length_workers)

lemma poolAfter_length_workers:
  "length (workers (poolAfter e name fs r ws)) = nat (systemConcurrency (numCPU e))"
  by (simp add: poolAfter_def run_length_workers initPool_def)

lemma systemConcurrency_ge: "2 \<le> systemConcurrency n"
  by (simp add: systemConcurrency_def defaultConcurrency_def)

lemma allExited_set: "allExited st \<Longrightarrow> w \<in> set (workers st) \<Longrightarrow> w = Exited"
  by (simp add: allExited_def list_all_iff)

lemma allExited_quiet:
  assumes "allExited st" and "errChan st = []"
  shows "\<not> failureSeen st"
  using assms unfolding failureSeen_iff by (auto dest: allExited_set)

lemma upto_as_map: "0 \<le> n \<Longrightarrow> map (\<lambda>i. int i + 1) [0..<nat n] = [1..n]"
  by (rule nth_equalityI) simp_all

lemma multipartUpload_success:
  assumes "fst (multipartUpload e name ws) = Returned None"
  obtains fs r where "statResult e = Inr fs"
    and "createMediaUpload (debug e) (negotiate e) = Inr r"
    and "0 \<le> NumParts r"
    and "panicked (poolAfter e name fs r ws) = None"
    and "allExited (poolAfter e name fs r ws)"
    and "errChan (poolAfter e name fs r ws) = []"
    and "snd (multipartUpload e name ws) =
      netlog (poolAfter e name fs r ws) @
      [CallComplete (MediaUploadID r) (UploadID r) (parts (poolAfter e name fs r ws))]"
proof -
  from assms obtain fs where stat: "statResult e = Inr fs"
    by (cases "statResult e") (simp_all add: multipartUpload_def)
  from assms stat obtain r where neg: "createMediaUpload (debug e) (negotiate e) = Inr r"
    by (cases "createMediaUpload (debug e) (negotiate e)") (simp_all add: multipartUpload_def)
  from assms stat neg have st: "poolStarts e r"
    by (cases "poolStarts e r") (simp_all add: multipartUpload_def Let_def)
  then have n0: "0 \<le> NumParts r" by (simp add: poolStarts_def canMake_def)
  note m = multipartUpload_pool [OF stat neg st, of name ws]
  from assms have a: "panicked (poolAfter e name fs r ws) = None"
    unfolding m by (auto simp: Let_def split: option.splits)
  from assms a have b: "allExited (poolAfter e name fs r ws)"
    unfolding m by (auto simp: Let_def split: if_splits)
  from assms a b have c: "errChan (poolAfter e name fs r ws) = []"
    unfolding m by (auto simp: Let_def split: list.splits)
  from assms a b c have d: "snd (multipartUpload e name ws) =
      netlog (poolAfter e name fs r ws) @
      [CallComplete (MediaUploadID r) (UploadID r) (parts (poolAfter e name fs r ws))]"
    unfolding m by (auto simp: Let_def split: option.splits)
  from stat neg n0 a b c d show ?thesis by (rule that)
qed

lemma quiet_final_parts:
  assumes inv: "poolInv e r fs st" and ex: "allExited st" and ne: "workers st \<noteq> []"
    and q: "errChan st = []" and np: "panicked st = None" and j: "inRange r j"
  shows "nat j < length (parts st) \<and> parts st ! nat j = okPart e j"
proof -
  have nf: "\<not> failureSeen st" using ex q by (rule allExited_quiet)
  from ne obtain w where "w \<in> set (workers st)" by (cases "workers st") auto
  with ex have "Exited \<in> set (workers st)" by (auto dest: allExited_set)
  from poolInv_exit [OF inv this] nf have jobs: "jobs st = []" by simp
  have "Busy j \<notin> set (workers st)" using ex by (auto dest: allExited_set)
  with poolInv_progress [OF inv j] jobs nf np show ?thesis by simp
qed

text \<open>
  C2, as the claim states it, fails: \<^verbatim>\<open>parts\<close> is made with the length of
  \<^verbatim>\<open>presignedURLs\<close>, not with \<open>numParts\<close>. A session of two parts that comes with
  three targets uploads successfully, and its manifest has three entries, the last
  one zero-valued with part number 0 after the part numbers 1 and 2.
\<close>

theorem manifest_longer_than_numParts:
  "fst (multipartUpload (demoEnv allOK (demoResponse\<lparr>NumParts := 2\<rparr>)) ''f.mp4''
      [0, 0, 1, 1, 0, 1]) = Returned None \<and>
   NumParts (demoResponse\<lparr>NumParts := 2\<rparr>) = 2 \<and>
   finalizerCalls (snd (multipartUpload (demoEnv allOK (demoResponse\<lparr>NumParts := 2\<rparr>)) ''f.mp4''
      [0, 0, 1, 1, 0, 1])) =
     [CallComplete ''m'' ''up''
       [\<lparr>PartNumber = 1, ETag = quoted ''a''\<rparr>, \<lparr>PartNumber = 2, ETag = quoted ''b''\<rparr>,
        \<lparr>PartNumber = 0, ETag = []\<rparr>]] \<and>
   \<not> sorted [1, 2, 0 :: int]"
  by code_simp

text \<open>
  C2, amended: in every successful run the finalizer is called once, with a manifest
  of as many entries as the session has targets, and there are at least \<open>numParts\<close> of
  them; the entry at each index \<open>i < numParts\<close> has part number \<open>i + 1\<close> and the
  \<^verbatim>\<open>ETag\<close> that the transfer of part \<open>i\<close> returned; the entries from index
  \<open>numParts\<close> on are zero-valued. When the session has exactly \<open>numParts\<close> targets,
  the part numbers of the manifest are \<open>1, \<dots>, numParts\<close> in this order: sorted, with
  no duplicate and none missing.
\<close>

theorem successful_manifest:
  assumes ok: "fst (multipartUpload e fileName sched) = Returned None"
  shows "\<exists>fileSize r ps.
     statResult e = Inr fileSize \<and> createMediaUpload (debug e) (negotiate e) = Inr r \<and>
     ps = parts (poolAfter e fileName fileSize r sched) \<and>
     finalizerCalls (snd (multipartUpload e fileName sched)) =
       [CallComplete (MediaUploadID r) (UploadID r) ps] \<and>
     length ps = length (PresignedURLs r) \<and> 0 \<le> NumParts r \<and> NumParts r \<le> int (length ps) \<and>
     (\<forall>i. 0 \<le> i \<and> i < NumParts r \<longrightarrow>
        ps ! nat i = \<lparr>PartNumber = i + 1, ETag = putETag (partIO e i)\<rparr>) \<and>
     (\<forall>k. nat (NumParts r) \<le> k \<and> k < length ps \<longrightarrow> ps ! k = zeroPart) \<and>
     (int (length (PresignedURLs r)) = NumParts r \<longrightarrow>
        map PartNumber ps = [1..NumParts r] \<and> sorted (map PartNumber ps) \<and>
        distinct (map PartNumber ps))"
proof -
  from ok obtain fs r where stat: "statResult e = Inr fs"
    and neg: "createMediaUpload (debug e) (negotiate e) = Inr r"
    and n0: "0 \<le> NumParts r"
    and np: "panicked (poolAfter e fileName fs r sched) = None"
    and ex: "allExited (poolAfter e fileName fs r sched)"
    and q: "errChan (poolAfter e fileName fs r sched) = []"
    and log: "snd (multipartUpload e fileName sched) =
      netlog (poolAfter e fileName fs r sched) @
      [CallComplete (MediaUploadID r) (UploadID r) (parts (poolAfter e fileName fs r sched))]"
    by (rule multipartUpload_success)
  let ?st = "poolAfter e fileName fs r sched"
  let ?ps = "parts ?st"
  have inv: "poolInv e r fs ?st" by (rule poolAfter_poolInv)
  have "2 \<le> nat (systemConcurrency (numCPU e))" using systemConcurrency_ge [of "numCPU e"] by simp
  then have ne: "workers ?st \<noteq> []" using poolAfter_length_workers [of e fileName fs r sched] by auto
  have len: "length ?ps = length (PresignedURLs r)" by (rule poolInv_parts(1) [OF inv])
  have fin: "nat j < length ?ps \<and> ?ps ! nat j = okPart e j" if "inRange r j" for j
    using quiet_final_parts [OF inv ex ne q np that] .
  have calls: "finalizerCalls (snd (multipartUpload e fileName sched)) =
       [CallComplete (MediaUploadID r) (UploadID r) ?ps]"
    unfolding log by (simp add: poolAfter_finalizerCalls) (simp add: finalizerCalls_def)
  have bound: "NumParts r \<le> int (length ?ps)"
  proof (cases "NumParts r = 0")
    case True
    then show ?thesis by simp
  next
    case False
    with n0 have "inRange r (NumParts r - 1)" by (simp add: inRange_def)
    from fin [OF this] show ?thesis by linarith
  qed
  have entries: "\<forall>i. 0 \<le> i \<and> i < NumParts r \<longrightarrow>
        ?ps ! nat i = \<lparr>PartNumber = i + 1, ETag = putETag (partIO e i)\<rparr>"
    using fin by (simp add: inRange_def okPart_def)
  have rest: "\<forall>k. nat (NumParts r) \<le> k \<and> k < length ?ps \<longrightarrow> ?ps ! k = zeroPart"
  proof (intro allI impI)
    fix k assume k: "nat (NumParts r) \<le> k \<and> k < length ?ps"
    then have "\<not> int k < NumParts r" by linarith
    with poolInv_parts(2) [OF inv, of k] k show "?ps ! k = zeroPart" by blast
  qed
  have full: "map PartNumber ?ps = [1..NumParts r] \<and> sorted (map PartNumber ?ps) \<and>
        distinct (map PartNumber ?ps)" if eq: "int (length (PresignedURLs r)) = NumParts r"
  proof -
    have l: "length ?ps = nat (NumParts r)" using len eq by simp
    have "map PartNumber ?ps = map (\<lambda>i. int i + 1) [0..<nat (NumParts r)]"
    proof (rule nth_equalityI)
      show "length (map PartNumber ?ps) = length (map (\<lambda>i. int i + 1) [0..<nat (NumParts r)])"
        using l by simp
    next
      fix i assume "i < length (map PartNumber ?ps)"
      then have i: "i < nat (NumParts r)" using l by simp
      then have "inRange r (int i)" by (simp add: inRange_def)
      from fin [OF this] have "?ps ! i = okPart e (int i)" by simp
      then show "map PartNumber ?ps ! i = map (\<lambda>i. int i + 1) [0..<nat (NumParts r)] ! i"
        using i l by (simp add: okPart_def)
    qed
    then have m: "map PartNumber ?ps = [1..NumParts r]" using n0 by (simp add: upto_as_map)
    show ?thesis unfolding m by simp
  qed
  from stat neg calls len n0 bound entries rest full show ?thesis by blast
qed

theorem successful_manifest_witness:
  "fst (multipartUpload (demoEnv allOK demoResponse) ''f.mp4'' [0, 0, 1, 1, 0, 0, 1, 0, 1]) =
     Returned None \<and>
   (\<exists>ps. finalizerCalls (snd (multipartUpload (demoEnv allOK demoResponse) ''f.mp4''
       [0, 0, 1, 1, 0, 0, 1, 0, 1])) = [CallComplete ''m'' ''up'' ps] \<and>
     ps = [\<lparr>PartNumber = 1, ETag = quoted ''a''\<rparr>, \<lparr>PartNumber = 2, ETag = quoted ''b''\<rparr>,
           \<lparr>PartNumber = 3, ETag = quoted ''c''\<rparr>] \<and>
     sorted (map PartNumber ps) \<and> distinct (map PartNumber ps))"
proof -
  let ?e = "demoEnv allOK demoResponse"
  let ?ws = "[0, 0, 1, 1, 0, 0, 1, 0, 1] :: nat list"
  have ok: "fst (multipartUpload ?e ''f.mp4'' ?ws) = Returned None" by code_simp
  have stat: "statResult ?e = Inr 10" by (simp add: demoEnv_def)
  have neg: "createMediaUpload (debug ?e) (negotiate ?e) = Inr demoResponse" by code_simp
  have full: "int (length (PresignedURLs demoResponse)) = NumParts demoResponse"
    by (simp add: demoResponse_def)
  have ps: "parts (poolAfter ?e ''f.mp4'' 10 demoResponse ?ws) =
      [\<lparr>PartNumber = 1, ETag = quoted ''a''\<rparr>, \<lparr>PartNumber = 2, ETag = quoted ''b''\<rparr>,
       \<lparr>PartNumber = 3, ETag = quoted ''c''\<rparr>]" by code_simp
  have ids: "MediaUploadID demoResponse = ''m''" "UploadID demoResponse = ''up''"
    by (simp_all add: demoResponse_def)
  from successful_manifest [OF ok] stat neg full ps ids
  have "\<exists>ps. finalizerCalls (snd (multipartUpload ?e ''f.mp4'' ?ws)) =
       [CallComplete ''m'' ''up'' ps] \<and>
     ps = [\<lparr>PartNumber = 1, ETag = quoted ''a''\<rparr>, \<lparr>PartNumber = 2, ETag = quoted ''b''\<rparr>,
           \<lparr>PartNumber = 3, ETag = quoted ''c''\<rparr>] \<and>
     sorted (map PartNumber ps) \<and> distinct (map PartNumber ps)"
    by auto
  with ok show ?thesis by blast
qed

subsection \<open>A session without parts\<close>

lemma step_no_jobs:
  assumes "jobs st = []" and "list_all (\<lambda>w. w = Idle \<or> w = Exited) (workers st)"
    and "panicked st = None"
  shows "step e r fs w st = st\<lparr>workers := (workers st)[w := Exited]\<rparr>"
proof (cases "w < length (workers st)")
  case False
  then have "length (workers st) \<le> w" by simp
  then have "(workers st)[w := Exited] = workers st" by (rule list_update_beyond)
  then show ?thesis using False by (simp add: step_def)
next
  case True
  with assms(2) have "workers st ! w = Idle \<or> workers st ! w = Exited"
    by (simp add: list_all_length)
  then show ?thesis
  proof
    assume "workers st ! w = Idle"
    then show ?thesis using True assms(1,3) by (simp add: step_def)
  next
    assume x: "workers st ! w = Exited"
    then have "(workers st)[w := Exited] = workers st" by (metis list_update_id)
    then show ?thesis using True assms(3) x by (simp add: step_def)
  qed
qed

lemma run_no_jobs:
  assumes "jobs st = []" and "list_all (\<lambda>w. w = Idle \<or> w = Exited) (workers st)"
    and "panicked st = None"
  shows "run e r fs ws st = st\<lparr>workers := fold (\<lambda>w l. l[w := Exited]) ws (workers st)\<rparr>"
  using assms
proof (induction ws arbitrary: st)
  case Nil
  show ?case by simp
next
  case (Cons w ws)
  let ?st = "st\<lparr>workers := (workers st)[w := Exited]\<rparr>"
  have s: "step e r fs w st = ?st" using Cons.prems by (rule step_no_jobs)
  have "list_all (\<lambda>w. w = Idle \<or> w = Exited) (workers ?st)"
    using Cons.prems(2) by (simp add: list_all_update)
  then have "run e r fs ws ?st = ?st\<lparr>workers := fold (\<lambda>w l. l[w := Exited]) ws (workers ?st)\<rparr>"
    using Cons.prems(1,3) by (intro Cons.IH) simp_all
  then show ?case using s by simp
qed

lemma fold_update_length: "length (fold (\<lambda>w l. l[w := x]) ws l) = length l"
  by (induction ws arbitrary: l) simp_all

lemma fold_update_nth:
  "i < length l \<Longrightarrow> fold (\<lambda>w l. l[w := x]) ws l ! i = (if i \<in> set ws then x else l ! i)"
proof (induction ws arbitrary: l)
  case Nil
  show ?case by simp
next
  case (Cons w ws)
  then have "fold (\<lambda>w l. l[w := x]) ws (l[w := x]) ! i = (if i \<in> set ws then x else l[w := x] ! i)"
    by simp
  then show ?case using Cons.prems by (auto simp: nth_list_update)
qed

lemma fold_update_all:
  "list_all (\<lambda>w. w = Exited) (fold (\<lambda>w l. l[w := Exited]) ws (replicate c Idle)) \<longleftrightarrow>
   (\<forall>w<c. w \<in> set ws)"
  by (auto simp: list_all_length fold_update_length fold_update_nth)

lemma poolAfter_no_parts:
  assumes "NumParts r = 0"
  shows "poolAfter e name fs r ws =
    (initPool r (systemConcurrency (numCPU e)) [CallCreate name fs])
      \<lparr>workers := fold (\<lambda>w l. l[w := Exited]) ws
          (replicate (nat (systemConcurrency (numCPU e))) Idle)\<rparr>"
proof -
  let ?st = "initPool r (systemConcurrency (numCPU e)) [CallCreate name fs]"
  have "run e r fs ws ?st = ?st\<lparr>workers := fold (\<lambda>w l. l[w := Exited]) ws (workers ?st)\<rparr>"
    by (rule run_no_jobs) (simp_all add: initPool_def assms list_all_iff)
  then show ?thesis by (simp add: poolAfter_def initPool_def)
qed

text \<open>
  C7, as the claim states it, fails: the manifest has the length of the target list,
  whatever \<open>numParts\<close> is. A session of no parts that comes with three targets is
  finalized with three zero-valued entries.
\<close>

theorem no_parts_manifest_not_empty:
  "NumParts (demoResponse\<lparr>NumParts := 0\<rparr>) = 0 \<and>
   multipartUpload (demoEnv allOK (demoResponse\<lparr>NumParts := 0\<rparr>)) ''f.mp4'' [0, 1] =
     (Returned None,
      [CallCreate ''f.mp4'' 10,
       CallComplete ''m'' ''up''
        [\<lparr>PartNumber = 0, ETag = []\<rparr>, \<lparr>PartNumber = 0, ETag = []\<rparr>,
         \<lparr>PartNumber = 0, ETag = []\<rparr>]])"
  by code_simp

text \<open>
  C7, amended: when negotiation returns \<open>numParts = 0\<close>, no run of the pool records an
  error or panics; the workers have all returned as soon as each of them has been
  scheduled once; and then the finalizer is called exactly once, after no other call
  than the negotiation, with as many zero-valued entries as the session has targets,
  and \<^verbatim>\<open>multipartUpload\<close> returns what the finalizer returns. The manifest is empty
  exactly when the session has no targets.
\<close>

theorem no_parts_upload:
  assumes stat: "statResult e = Inr fileSize"
    and neg: "createMediaUpload (debug e) (negotiate e) = Inr r"
    and z: "NumParts r = 0"
  shows "errChan (poolAfter e fileName fileSize r sched) = [] \<and>
    panicked (poolAfter e fileName fileSize r sched) = None \<and>
    (allExited (poolAfter e fileName fileSize r sched) \<longleftrightarrow>
       (\<forall>w < nat (systemConcurrency (numCPU e)). w \<in> set sched)) \<and>
    (allExited (poolAfter e fileName fileSize r sched) \<longrightarrow>
       multipartUpload e fileName sched =
         (Returned (map_option FailedComplete
            (completeMultipartUpload (debug e)
               (complete e (replicate (length (PresignedURLs r)) zeroPart)))),
          [CallCreate fileName fileSize,
           CallComplete (MediaUploadID r) (UploadID r)
             (replicate (length (PresignedURLs r)) zeroPart)])) \<and>
    (replicate (length (PresignedURLs r)) zeroPart = [] \<longleftrightarrow> PresignedURLs r = [])"
proof -
  let ?st = "poolAfter e fileName fileSize r sched"
  note p = poolAfter_no_parts [OF z, of e fileName fileSize sched]
  have a: "errChan ?st = []" "panicked ?st = None" "netlog ?st = [CallCreate fileName fileSize]"
    "parts ?st = replicate (length (PresignedURLs r)) zeroPart"
    unfolding p by (simp_all add: initPool_def)
  have b: "allExited ?st \<longleftrightarrow> (\<forall>w < nat (systemConcurrency (numCPU e)). w \<in> set sched)"
    unfolding p allExited_def by (simp add: fold_update_all)
  have n0: "poolStarts e r" using z by (simp add: poolStarts_def canMake_def)
  have c: "multipartUpload e fileName sched =
         (Returned (map_option FailedComplete
            (completeMultipartUpload (debug e)
               (complete e (replicate (length (PresignedURLs r)) zeroPart)))),
          [CallCreate fileName fileSize,
           CallComplete (MediaUploadID r) (UploadID r)
             (replicate (length (PresignedURLs r)) zeroPart)])" if "allExited ?st"
    unfolding multipartUpload_pool [OF stat neg n0] using that a
    by (simp add: Let_def split: option.splits)
  from a b c show ?thesis by simp
qed

theorem no_parts_upload_witness:
  "NumParts zeroResponse = 0 \<and>
   allExited (poolAfter ((demoEnv allOK demoResponse)\<lparr>negotiate := okExchange zeroResponse\<rparr>)
      ''f.mp4'' 10 zeroResponse [1, 0]) \<and>
   multipartUpload ((demoEnv allOK demoResponse)\<lparr>negotiate := okExchange zeroResponse\<rparr>)
      ''f.mp4'' [1, 0] =
     (Returned None, [CallCreate ''f.mp4'' 10, CallComplete [] [] []])"
proof -
  let ?e = "(demoEnv allOK demoResponse)\<lparr>negotiate := okExchange zeroResponse\<rparr>"
  have stat: "statResult ?e = Inr 10" by (simp add: demoEnv_def)
  have neg: "createMediaUpload (debug ?e) (negotiate ?e) = Inr zeroResponse" by code_simp
  have z: "NumParts zeroResponse = 0" by (simp add: zeroResponse_def)
  have ex: "allExited (poolAfter ?e ''f.mp4'' 10 zeroResponse [1, 0])" by code_simp
  have fin: "completeMultipartUpload (debug (demoEnv allOK demoResponse))
      (complete (demoEnv allOK demoResponse) []) = None"
    by code_simp
  have ids: "MediaUploadID zeroResponse = []" "UploadID zeroResponse = []"
    "PresignedURLs zeroResponse = []"
    by (simp_all add: zeroResponse_def)
  from no_parts_upload [OF stat neg z, of "''f.mp4''" "[1, 0]"] ex
  have "multipartUpload ?e ''f.mp4'' [1, 0] =
     (Returned None, [CallCreate ''f.mp4'' 10, CallComplete [] [] []])"
    by (simp add: fin ids)
  with z ex show ?thesis by blast
qed

subsection \<open>The index into the target list\<close>

lemma transferPart_index_panic:
  "snd (transferPart e r fs j) = BodyPanic IndexOutOfRange \<longleftrightarrow>
   \<not> (0 \<le> j \<and> j < int (length (PresignedURLs r)))"
  by (auto simp: transferPart_def Let_def split: option.splits)

lemma step_index_safe:
  assumes le: "NumParts r \<le> int (length (PresignedURLs r))"
    and inv: "poolInv e r fs st" and np: "panicked st \<noteq> Some IndexOutOfRange"
  shows "panicked (step e r fs w st) \<noteq> Some IndexOutOfRange"
proof (cases rule: step_cases [of e r fs w st])
  case (panic j cs pn)
  have "workerInv e r fs (workers st ! w)"
    using workerInv_nth [OF poolInv_lists(2) [OF inv] panic(1)] .
  then have "inRange r j" using panic(2) by simp
  then have "0 \<le> j \<and> j < int (length (PresignedURLs r))" using le by (simp add: inRange_def)
  then have "snd (transferPart e r fs j) \<noteq> BodyPanic IndexOutOfRange"
    by (simp add: transferPart_index_panic)
  then have "pn \<noteq> IndexOutOfRange" using panic(3) by auto
  then show ?thesis using panic(4) by simp
qed (use np in simp_all)

lemma run_index_safe:
  assumes le: "NumParts r \<le> int (length (PresignedURLs r))"
  shows "poolInv e r fs st \<and> panicked st \<noteq> Some IndexOutOfRange \<Longrightarrow>
    panicked (run e r fs ws st) \<noteq> Some IndexOutOfRange"
proof (induction ws arbitrary: st)
  case Nil
  then show ?case by simp
next
  case (Cons w ws)
  then have "poolInv e r fs (step e r fs w st) \<and>
    panicked (step e r fs w st) \<noteq> Some IndexOutOfRange"
    using step_poolInv step_index_safe [OF le] by blast
  then show ?case using Cons.IH by simp
qed

lemma okEnv_answered:
  assumes "0 \<le> PartSize r" and "0 \<le> j" and "j < int (length (PresignedURLs r))"
    and "j < NumParts r"
  shows "putAnswered (okEnv r) r (NumParts r * PartSize r) j"
proof -
  have "0 \<le> (NumParts r - j) * PartSize r" using assms(1,4) by simp
  then have "0 \<le> NumParts r * PartSize r - j * PartSize r" by (simp add: algebra_simps)
  then have "0 \<le> readSizeOf (PartSize r) (NumParts r * PartSize r) (partOffsetOf j (PartSize r))"
    using assms(1) by (simp add: readSizeOf_def partOffsetOf_def)
  then show ?thesis using assms
    by (simp add: putAnswered_def putSent_def canMake_def okEnv_def okIO_def)
qed

lemma step_take:
  "panicked st = None \<Longrightarrow> w < length (workers st) \<Longrightarrow> workers st ! w = Idle \<Longrightarrow>
   jobs st = j # js \<Longrightarrow>
   step e r fs w st = st\<lparr>jobs := js, workers := (workers st)[w := Busy j]\<rparr>"
  by (simp add: step_def)

lemma replicate_two_more: "replicate (2 * Suc k) x = replicate (2 * k) x @ [x, x]"
proof -
  have "replicate (2 * k + 2) x = replicate (2 * k) x @ replicate 2 x" by (rule replicate_add)
  then show ?thesis by (simp add: numeral_2_eq_2)
qed

lemma sequential_prefix:
  assumes P: "0 \<le> PartSize r" and c: "0 < length (workers st0)"
    and st0: "jobs st0 = map int [0..<nat (NumParts r)]" "workers st0 ! 0 = Idle"
      "panicked st0 = None"
  shows "k \<le> length (PresignedURLs r) \<Longrightarrow> int k \<le> NumParts r \<Longrightarrow>
    jobs (run (okEnv r) r (NumParts r * PartSize r) (replicate (2 * k) 0) st0) =
      map int [k..<nat (NumParts r)] \<and>
    0 < length (workers (run (okEnv r) r (NumParts r * PartSize r) (replicate (2 * k) 0) st0)) \<and>
    workers (run (okEnv r) r (NumParts r * PartSize r) (replicate (2 * k) 0) st0) ! 0 = Idle \<and>
    panicked (run (okEnv r) r (NumParts r * PartSize r) (replicate (2 * k) 0) st0) = None"
proof (induction k)
  case 0
  show ?case using c st0 by simp
next
  case (Suc k)
  let ?fs = "NumParts r * PartSize r"
  let ?st = "run (okEnv r) r ?fs (replicate (2 * k) 0) st0"
  note rep = replicate_two_more [of k "0::nat"]
  from Suc have q: "jobs ?st = map int [k..<nat (NumParts r)]" "0 < length (workers ?st)"
    "workers ?st ! 0 = Idle" "panicked ?st = None"
    by simp_all
  have kn: "k < nat (NumParts r)" using Suc.prems(2) by simp
  then have j: "jobs ?st = int k # map int [Suc k..<nat (NumParts r)]"
    using q(1) by (simp add: upt_conv_Cons)
  let ?s1 = "step (okEnv r) r ?fs 0 ?st"
  have s1: "?s1 = ?st\<lparr>jobs := map int [Suc k..<nat (NumParts r)],
      workers := (workers ?st)[0 := Busy (int k)]\<rparr>"
    using q(4) q(2) q(3) j by (rule step_take)
  have ans: "putAnswered (okEnv r) r ?fs (int k)"
    using Suc.prems P by (intro okEnv_answered) simp_all
  have ok: "snd (transferPart (okEnv r) r ?fs (int k)) = BodyOk (okPart (okEnv r) (int k))"
    using transferPart_answered [OF ans] by (simp add: okEnv_def okIO_def)
  obtain cs where t: "transferPart (okEnv r) r ?fs (int k) = (cs, BodyOk (okPart (okEnv r) (int k)))"
    using ok by (cases "transferPart (okEnv r) r ?fs (int k)") simp
  let ?s2 = "step (okEnv r) r ?fs 0 ?s1"
  have s2: "jobs ?s2 = map int [Suc k..<nat (NumParts r)] \<and> 0 < length (workers ?s2) \<and>
    workers ?s2 ! 0 = Idle \<and> panicked ?s2 = None"
    unfolding s1 using q t by (simp add: step_def)
  have "run (okEnv r) r ?fs (replicate (2 * Suc k) 0) st0 = ?s2"
    unfolding rep run_append by simp
  then show ?case using s2 by simp
qed

lemma sequential_crash:
  assumes P: "0 \<le> PartSize r" and lt: "int (length (PresignedURLs r)) < NumParts r"
    and c: "0 < length (workers st0)"
    and st0: "jobs st0 = map int [0..<nat (NumParts r)]" "workers st0 ! 0 = Idle"
      "panicked st0 = None"
  shows "panicked (run (okEnv r) r (NumParts r * PartSize r)
    (replicate (2 * length (PresignedURLs r)) 0 @ [0, 0]) st0) = Some IndexOutOfRange"
proof -
  let ?fs = "NumParts r * PartSize r"
  let ?n = "length (PresignedURLs r)"
  let ?st = "run (okEnv r) r ?fs (replicate (2 * ?n) 0) st0"
  from sequential_prefix [OF P c st0, of ?n] lt
  have q: "jobs ?st = map int [?n..<nat (NumParts r)]" "0 < length (workers ?st)"
    "workers ?st ! 0 = Idle" "panicked ?st = None"
    by simp_all
  have "?n < nat (NumParts r)" using lt by simp
  then have j: "jobs ?st = int ?n # map int [Suc ?n..<nat (NumParts r)]"
    using q(1) by (simp add: upt_conv_Cons)
  let ?s1 = "step (okEnv r) r ?fs 0 ?st"
  have s1: "?s1 = ?st\<lparr>jobs := map int [Suc ?n..<nat (NumParts r)],
      workers := (workers ?st)[0 := Busy (int ?n)]\<rparr>"
    using q(4) q(2) q(3) j by (rule step_take)
  have "snd (transferPart (okEnv r) r ?fs (int ?n)) = BodyPanic IndexOutOfRange"
    by (simp add: transferPart_index_panic)
  then obtain cs where t: "transferPart (okEnv r) r ?fs (int ?n) = (cs, BodyPanic IndexOutOfRange)"
    by (cases "transferPart (okEnv r) r ?fs (int ?n)") simp
  have "panicked (step (okEnv r) r ?fs 0 ?s1) = Some IndexOutOfRange"
    unfolding s1 using q t by (simp add: step_def)
  then show ?thesis unfolding run_append by simp
qed

lemma okEnv_negotiates: "createMediaUpload (debug (okEnv r)) (negotiate (okEnv r)) = Inr r"
  by (simp add: okEnv_def okExchange_def createMediaUpload_def CreateMediaUpload_def Post_def
      DoRequest_def targetAfter_def)

lemma okEnv_crash:
  assumes lt: "int (length (PresignedURLs r)) < NumParts r" and P: "0 \<le> PartSize r"
  shows "fst (multipartUpload (okEnv r) name
      (replicate (2 * length (PresignedURLs r)) 0 @ [0, 0])) = Crashed IndexOutOfRange"
proof -
  let ?ws = "replicate (2 * length (PresignedURLs r)) 0 @ [0, 0]"
  have stat: "statResult (okEnv r) = Inr (NumParts r * PartSize r)" by (simp add: okEnv_def)
  have "0 \<le> NumParts r" using lt by simp
  then have n0: "poolStarts (okEnv r) r" by (simp add: poolStarts_def canMake_def okEnv_def)
  have c: "systemConcurrency (numCPU (okEnv r)) = 2"
    by (simp add: okEnv_def systemConcurrency_def)
  let ?st0 = "initPool r (systemConcurrency (numCPU (okEnv r)))
      [CallCreate name (NumParts r * PartSize r)]"
  have "panicked (run (okEnv r) r (NumParts r * PartSize r) ?ws ?st0) = Some IndexOutOfRange"
    by (rule sequential_crash [OF P lt]) (simp_all add: initPool_def c)
  then have "panicked (poolAfter (okEnv r) name (NumParts r * PartSize r) r ?ws) =
      Some IndexOutOfRange"
    by (simp add: poolAfter_def)
  then show ?thesis
    unfolding multipartUpload_pool [OF stat okEnv_negotiates n0] by (simp add: Let_def)
qed

lemma jobs_in_bounds_iff:
  "(\<forall>j \<in> set (jobs (initPool r c cs)). 0 \<le> j \<and> j < int (length (PresignedURLs r))) \<longleftrightarrow>
   NumParts r \<le> int (length (PresignedURLs r))"
proof
  assume a: "\<forall>j \<in> set (jobs (initPool r c cs)). 0 \<le> j \<and> j < int (length (PresignedURLs r))"
  show "NumParts r \<le> int (length (PresignedURLs r))"
  proof (rule ccontr)
    assume "\<not> NumParts r \<le> int (length (PresignedURLs r))"
    then have "length (PresignedURLs r) < nat (NumParts r)" by simp
    then have "int (length (PresignedURLs r)) \<in> set (jobs (initPool r c cs))"
      by (simp add: initPool_def)
    with a show False by auto
  qed
next
  assume "NumParts r \<le> int (length (PresignedURLs r))"
  then show "\<forall>j \<in> set (jobs (initPool r c cs)). 0 \<le> j \<and> j < int (length (PresignedURLs r))"
    by (auto simp: initPool_def)
qed

text \<open>
  C10. The part numbers put into the job channel are all valid indices of
  \<^verbatim>\<open>presignedURLs\<close> exactly when \<open>numParts \<le> len(presignedURLs)\<close>, and \<^verbatim>\<open>parts\<close> has
  the length of \<^verbatim>\<open>presignedURLs\<close>, so the same holds of the index into it. Under that
  precondition no run of the pool, in any environment and under any schedule, panics
  on the index. Nothing in the program establishes the precondition: for a session
  with fewer targets than parts (and a part size that is not negative), negotiation
  in an environment where nothing fails returns the session as it is, and the run in
  which one worker takes the parts one after the other dies of the index out of
  range.
\<close>

theorem target_index_in_bounds_iff:
  "((\<forall>j \<in> set (jobs (initPool r c cs)). 0 \<le> j \<and> j < int (length (PresignedURLs r))) \<longleftrightarrow>
      NumParts r \<le> int (length (PresignedURLs r))) \<and>
   length (parts (initPool r c cs)) = length (PresignedURLs r) \<and>
   (NumParts r \<le> int (length (PresignedURLs r)) \<longrightarrow>
      (\<forall>e fileSize sched.
         panicked (run e r fileSize sched (initPool r c cs)) \<noteq> Some IndexOutOfRange)) \<and>
   (int (length (PresignedURLs r)) < NumParts r \<and> 0 \<le> PartSize r \<longrightarrow>
      createMediaUpload (debug (okEnv r)) (negotiate (okEnv r)) = Inr r \<and>
      fst (multipartUpload (okEnv r) fileName
        (replicate (2 * length (PresignedURLs r)) 0 @ [0, 0])) = Crashed IndexOutOfRange)"
proof (intro conjI impI allI)
  show "(\<forall>j \<in> set (jobs (initPool r c cs)). 0 \<le> j \<and> j < int (length (PresignedURLs r))) \<longleftrightarrow>
      NumParts r \<le> int (length (PresignedURLs r))"
    by (rule jobs_in_bounds_iff)
  show "length (parts (initPool r c cs)) = length (PresignedURLs r)"
    by (simp add: initPool_def)
next
  fix e fileSize sched
  assume le: "NumParts r \<le> int (length (PresignedURLs r))"
  have "poolInv e r fileSize (initPool r c cs) \<and>
    panicked (initPool r c cs) \<noteq> Some IndexOutOfRange"
    using initPool_poolInv [of e r fileSize c cs] by (simp add: initPool_def)
  then show "panicked (run e r fileSize sched (initPool r c cs)) \<noteq> Some IndexOutOfRange"
    by (rule run_index_safe [OF le])
next
  show "createMediaUpload (debug (okEnv r)) (negotiate (okEnv r)) = Inr r"
    by (rule okEnv_negotiates)
next
  assume "int (length (PresignedURLs r)) < NumParts r \<and> 0 \<le> PartSize r"
  then show "fst (multipartUpload (okEnv r) fileName
        (replicate (2 * length (PresignedURLs r)) 0 @ [0, 0])) = Crashed IndexOutOfRange"
    by (intro okEnv_crash) simp_all
qed

theorem target_index_in_bounds_iff_witness:
  "NumParts demoResponse \<le> int (length (PresignedURLs demoResponse)) \<and>
   panicked (run (demoEnv allOK demoResponse) demoResponse 10 [0, 0, 1, 1, 0, 0, 1, 0, 1]
     (initPool demoResponse 2 [])) \<noteq> Some IndexOutOfRange \<and>
   int (length (PresignedURLs (demoResponse\<lparr>NumParts := 4\<rparr>))) <
     NumParts (demoResponse\<lparr>NumParts := 4\<rparr>) \<and>
   fst (multipartUpload (okEnv (demoResponse\<lparr>NumParts := 4\<rparr>)) ''f.mp4''
     (replicate (2 * length (PresignedURLs (demoResponse\<lparr>NumParts := 4\<rparr>))) 0 @ [0, 0])) =
     Crashed IndexOutOfRange"
proof -
  have a: "NumParts demoResponse \<le> int (length (PresignedURLs demoResponse))"
    by (simp add: demoResponse_def)
  have b: "int (length (PresignedURLs (demoResponse\<lparr>NumParts := 4\<rparr>))) <
     NumParts (demoResponse\<lparr>NumParts := 4\<rparr>) \<and> 0 \<le> PartSize (demoResponse\<lparr>NumParts := 4\<rparr>)"
    by (simp add: demoResponse_def)
  from a target_index_in_bounds_iff [of demoResponse 2 "[]"]
  have c: "panicked (run (demoEnv allOK demoResponse) demoResponse 10 [0, 0, 1, 1, 0, 0, 1, 0, 1]
     (initPool demoResponse 2 [])) \<noteq> Some IndexOutOfRange"
    by blast
  from b target_index_in_bounds_iff [of "demoResponse\<lparr>NumParts := 4\<rparr>" 2 "[]" "''f.mp4''"]
  have d: "fst (multipartUpload (okEnv (demoResponse\<lparr>NumParts := 4\<rparr>)) ''f.mp4''
     (replicate (2 * length (PresignedURLs (demoResponse\<lparr>NumParts := 4\<rparr>))) 0 @ [0, 0])) =
     Crashed IndexOutOfRange"
    by blast
  from a b c d show ?thesis by blast
qed

subsection \<open>The progress bar\<close>

lemma step_bar:
  "barCurrent st \<le> barCurrent (step e r fs w st) \<and>
   barCurrent (step e r fs w st) \<le> barCurrent st + 1"
  by (cases rule: step_cases [of e r fs w st]) simp_all

lemma run_bar_mono: "barCurrent st \<le> barCurrent (run e r fs ws st)"
proof (induction ws arbitrary: st)
  case Nil
  show ?case by simp
next
  case (Cons w ws)
  have "barCurrent st \<le> barCurrent (step e r fs w st)" using step_bar [of st e r fs w] by simp
  also have "\<dots> \<le> barCurrent (run e r fs ws (step e r fs w st))" by (rule Cons.IH)
  finally show ?case by simp
qed

text \<open>The step that completes a part counts it and sets the label from the index of
  that part and the time elapsed.\<close>

lemma step_completion:
  assumes "panicked st = None" and "w < length (workers st)" and "workers st ! w = Busy j"
    and "snd (transferPart e r fs j) = BodyOk p"
  shows "barCurrent (step e r fs w st) = barCurrent st + 1 \<and>
    barRemaining (step e r fs w st) =
      (NumParts r - j - 1) * truncDiv (elapsedNanos (partIO e j)) (1000000000 * (j + 1))"
proof -
  obtain cs where "transferPart e r fs j = (cs, BodyOk p)"
    using assms(4) by (cases "transferPart e r fs j") simp
  then show ?thesis
    using assms(1-3) by (simp add: step_def remainingOf_def perPartSecondsOf_def)
qed

text \<open>
  C8. The display counter is right: it goes up by one with each part completed and
  never down. The estimate is not what the claim says. The code multiplies
  \<open>numParts - partNum - 1\<close> by the elapsed seconds divided by \<open>partNum + 1\<close>, where
  \<open>partNum\<close> is the index of the part that has just completed: the number of parts
  completed only if the parts complete in the order of their indices, which the worker
  pool does not ensure. With three workers on three parts, let part 2 complete first,
  3 seconds after the start: one part is completed and two remain, so that the
  estimate of the claim is \<open>2 \<times> (3 / 1) = 6\<close> seconds, and the code sets
  \<open>(3 - 2 - 1) \<times> int(3 / 3) = 0\<close> seconds. The quotient is also truncated before
  it is multiplied: for part 0 of three completing 1.5 seconds after the start the
  claim gives \<open>2 \<times> 1.5 = 3\<close> seconds and the code \<open>2 \<times> int(1.5) = 2\<close>.
\<close>

theorem eta_uses_part_index:
  "barCurrent (poolAfter ((demoEnv allOK demoResponse)\<lparr>numCPU := 3\<rparr>) ''f.mp4'' 10
      demoResponse [0, 1, 2, 2]) = 1 \<and>
   NumParts demoResponse - barCurrent (poolAfter ((demoEnv allOK demoResponse)\<lparr>numCPU := 3\<rparr>)
      ''f.mp4'' 10 demoResponse [0, 1, 2, 2]) = 2 \<and>
   parts (poolAfter ((demoEnv allOK demoResponse)\<lparr>numCPU := 3\<rparr>) ''f.mp4'' 10
      demoResponse [0, 1, 2, 2]) =
     [zeroPart, zeroPart, \<lparr>PartNumber = 3, ETag = quoted ''c''\<rparr>] \<and>
   elapsedNanos (partIO ((demoEnv allOK demoResponse)\<lparr>numCPU := 3\<rparr>) 2) = 3000000000 \<and>
   barRemaining (poolAfter ((demoEnv allOK demoResponse)\<lparr>numCPU := 3\<rparr>) ''f.mp4'' 10
      demoResponse [0, 1, 2, 2]) = 0 \<and>
   specRemaining 2 3000000000 1 = 6 \<and>
   remainingOf 3 0 1500000000 = 2 \<and>
   specRemaining 2 1500000000 1 = 3"
  by code_simp

end
